theory Spec2Isabelle
  imports Complex_Main "HOL-Library.AList"
begin

section \<open>Strings and insertion-ordered maps\<close>

text \<open>
  Texts are modelled as ASCII strings (\<open>char list\<close>).  \<open>toLowerCase\<close> folds the
  letters A..Z; \<open>split(/\s+/)\<close> splits at maximal runs of white space and, as in
  JavaScript, yields an empty first (last) word when the text starts (ends) with white
  space, and \<open>['''']\<close> for the empty text.
\<close>

definition lower_char :: "char \<Rightarrow> char" where
  "lower_char c =
     (case map_of (zip ''ABCDEFGHIJKLMNOPQRSTUVWXYZ'' ''abcdefghijklmnopqrstuvwxyz'') c of
        Some d \<Rightarrow> d
      | None \<Rightarrow> c)"

definition toLowerCase :: "string \<Rightarrow> string" where
  "toLowerCase s = map lower_char s"

definition is_space :: "char \<Rightarrow> bool" where
  "is_space c = (c \<in> set [CHR 0x09, CHR 0x0A, CHR 0x0B, CHR 0x0C, CHR 0x0D, CHR '' ''])"

fun split_ws :: "string \<Rightarrow> string list" where
  "split_ws [] = [[]]"
| "split_ws (c # cs) =
     (if is_space c then
        (if cs \<noteq> [] \<and> is_space (hd cs) then split_ws cs else [] # split_ws cs)
      else (case split_ws cs of
              [] \<Rightarrow> [[c]]
            | w # ws \<Rightarrow> (c # w) # ws))"

text \<open>
  A JavaScript \<open>Map\<close> is an association list in insertion order with distinct keys:
  \<open>get\<close> is \<^const>\<open>map_of\<close> (\<open>None\<close> is \<open>undefined\<close>), \<open>set\<close> is
  \<^const>\<open>AList.update\<close> (overwrite in place, else append), \<open>size\<close> is the length.
\<close>

definition has :: "('k \<times> 'v) list \<Rightarrow> 'k \<Rightarrow> bool" where
  "has m k = (map_of m k \<noteq> None)"

text \<open>\<open>m.get(k) || 0\<close> on a map of counts.\<close>

definition get_or0 :: "('k \<times> nat) list \<Rightarrow> 'k \<Rightarrow> nat" where
  "get_or0 m k = (case map_of m k of None \<Rightarrow> 0 | Some c \<Rightarrow> c)"

text \<open>\<open>Array.prototype.join\<close>: an \<open>undefined\<close> element is rendered as the empty string.\<close>

fun join :: "string \<Rightarrow> string option list \<Rightarrow> string" where
  "join sep [] = []"
| "join sep [x] = (case x of None \<Rightarrow> [] | Some s \<Rightarrow> s)"
| "join sep (x # y # ys) = (case x of None \<Rightarrow> [] | Some s \<Rightarrow> s) @ sep @ join sep (y # ys)"

section \<open>The tokenizer\<close>

text \<open>A token id is a number or \<open>undefined\<close> (what \<open>Map.get\<close> returns on a miss).\<close>

type_synonym tok = "nat option"

record tokenizer =
  word2idx :: "(string \<times> nat) list"
  idx2word :: "(nat \<times> string) list"
  subwords :: "(string \<times> nat) list"
  vocabSize :: nat

definition PAD :: string where "PAD = ''<PAD>''"
definition UNK :: string where "UNK = ''<UNK>''"
definition START :: string where "START = ''<START>''"
definition END :: string where "END = ''<END>''"

text \<open>The tokenizer as \<open>initializeTokenizer\<close> creates it, before any \<open>fit\<close>.\<close>

definition new_tokenizer :: tokenizer where
  "new_tokenizer = \<lparr>word2idx = [], idx2word = [], subwords = [], vocabSize = 0\<rparr>"

subsection \<open>fit\<close>

fun count_words :: "string list \<Rightarrow> (string \<times> nat) list \<Rightarrow> (string \<times> nat) list" where
  "count_words [] wordFreq = wordFreq"
| "count_words (word # ws) wordFreq =
     count_words ws (AList.update word (get_or0 wordFreq word + 1) wordFreq)"

definition word_freq :: "string list \<Rightarrow> (string \<times> nat) list" where
  "word_freq texts = fold (\<lambda>text wf. count_words (split_ws (toLowerCase text)) wf) texts []"

text \<open>The n-grams of one word, for one \<open>n\<close>: \<open>i\<close> runs from 0 to \<open>word.length - n\<close>.\<close>

definition add_ngrams :: "string \<Rightarrow> nat \<Rightarrow> nat \<Rightarrow> (string \<times> nat) list \<Rightarrow> (string \<times> nat) list" where
  "add_ngrams word freq n cands =
     (if length word < n then cands
      else fold (\<lambda>i c. let subword = take n (drop i word)
                        in AList.update subword (get_or0 c subword + freq) c)
                [0 ..< length word - n + 1] cands)"

definition add_word_ngrams :: "string \<times> nat \<Rightarrow> (string \<times> nat) list \<Rightarrow> (string \<times> nat) list" where
  "add_word_ngrams e cands =
     (case e of (word, freq) \<Rightarrow>
        if length word \<le> 1 then cands
        else fold (add_ngrams word freq) [2, 3, 4] cands)"

definition subword_candidates :: "(string \<times> nat) list \<Rightarrow> (string \<times> nat) list" where
  "subword_candidates wordFreq = fold add_word_ngrams wordFreq []"

text \<open>
  \<open>sort((a, b) => b[1] - a[1]).slice(0, 5000)\<close>: a stable sort by descending count
  (equal counts keep their insertion order), then the first 5000 entries.
\<close>

definition sorted_subwords :: "(string \<times> nat) list \<Rightarrow> (string \<times> nat) list" where
  "sorted_subwords cands = take 5000 (sort_key (\<lambda>e. - int (snd e)) cands)"

definition add_subword :: "string \<times> nat \<Rightarrow> tokenizer \<times> nat \<Rightarrow> tokenizer \<times> nat" where
  "add_subword e s =
     (case s of (tk, idx) \<Rightarrow>
        (tk\<lparr>word2idx := AList.update (fst e) idx (word2idx tk),
            idx2word := AList.update idx (fst e) (idx2word tk),
            subwords := AList.update (fst e) idx (subwords tk)\<rparr>, idx + 1))"

definition add_whole_word :: "string \<times> nat \<Rightarrow> tokenizer \<times> nat \<Rightarrow> tokenizer \<times> nat" where
  "add_whole_word e s =
     (case s of (tk, idx) \<Rightarrow>
        if \<not> has (word2idx tk) (fst e) then
          (tk\<lparr>word2idx := AList.update (fst e) idx (word2idx tk),
              idx2word := AList.update idx (fst e) (idx2word tk)\<rparr>, idx + 1)
        else (tk, idx))"

text \<open>The state after the reset and the four special tokens; \<open>idx = 4\<close>.\<close>

definition reset_tokenizer :: "tokenizer \<Rightarrow> tokenizer" where
  "reset_tokenizer tk =
     tk\<lparr>word2idx := AList.update END 3 (AList.update START 2
                        (AList.update UNK 1 (AList.update PAD 0 []))),
        idx2word := AList.update 3 END (AList.update 2 START
                        (AList.update 1 UNK (AList.update 0 PAD []))),
        subwords := []\<rparr>"

definition fit :: "string list \<Rightarrow> tokenizer \<Rightarrow> tokenizer" where
  "fit texts tk =
     (let wordFreq = word_freq texts;
          sortedSubwords = sorted_subwords (subword_candidates wordFreq);
          s1 = fold add_subword sortedSubwords (reset_tokenizer tk, 4);
          s2 = fold add_whole_word wordFreq s1;
          tk2 = fst s2
      in tk2\<lparr>vocabSize := length (word2idx tk2)\<rparr>)"

subsection \<open>encode\<close>

text \<open>
  The inner \<open>for (len = min(4, word.length - i); len >= 2; len--)\<close>: the first (longest)
  length whose substring at \<open>i\<close> is a known sub-word.
\<close>

definition match_len :: "tokenizer \<Rightarrow> string \<Rightarrow> nat \<Rightarrow> nat option" where
  "match_len tk word i =
     find (\<lambda>len. has (subwords tk) (take len (drop i word)))
          (rev [2 ..< min 4 (length word - i) + 1])"

text \<open>
  The loop \<open>for (i = 0; i < word.length;)\<close> from position \<open>i\<close> on: the ids it pushes
  and whether some sub-word matched (\<open>wordEncoded\<close>).
\<close>

function encode_subwords :: "tokenizer \<Rightarrow> string \<Rightarrow> nat \<Rightarrow> tok list \<times> bool" where
  "encode_subwords tk word i =
     (if i < length word then
        (case match_len tk word i of
           Some len \<Rightarrow>
             (map_of (subwords tk) (take len (drop i word))
                # fst (encode_subwords tk word (i + len)), True)
         | None \<Rightarrow>
             (map_of (word2idx tk) UNK # fst (encode_subwords tk word (i + 1)),
              snd (encode_subwords tk word (i + 1))))
      else ([], False))"
  by pat_completeness auto
termination
proof (relation "measure (\<lambda>(tk, word, i). length word - i)", goal_cases)
  case 1
  show ?case by simp
next
  case (2 tk word i)
  then show ?case by simp
next
  case (3 tk word i)
  then show ?case by simp
next
  case (4 tk word i len)
  from 4(2) have "len \<in> set (rev [2 ..< min 4 (length word - i) + 1])"
    unfolding match_len_def by (metis find_Some_iff nth_mem)
  with 4(1) show ?case by auto
qed

declare encode_subwords.simps [simp del]

definition encode_word :: "tokenizer \<Rightarrow> string \<Rightarrow> tok list" where
  "encode_word tk word =
     (if has (word2idx tk) word then [map_of (word2idx tk) word]
      else (case encode_subwords tk word 0 of
              (ids, wordEncoded) \<Rightarrow>
                if \<not> wordEncoded then ids @ [map_of (word2idx tk) UNK] else ids))"

text \<open>The loop over the words; the length check comes after each whole word.\<close>

fun encode_words :: "tokenizer \<Rightarrow> nat \<Rightarrow> tok list \<Rightarrow> string list \<Rightarrow> tok list" where
  "encode_words tk maxLength result [] = result"
| "encode_words tk maxLength result (word # ws) =
     (let result' = result @ encode_word tk word
      in if length result' \<ge> maxLength - 1 then result'
         else encode_words tk maxLength result' ws)"

definition encode :: "tokenizer \<Rightarrow> string \<Rightarrow> nat \<Rightarrow> tok list" where
  "encode tk text maxLength =
     (let words = split_ws (toLowerCase text);
          result = encode_words tk maxLength [map_of (word2idx tk) START] words;
          result = result @ [map_of (word2idx tk) END]
      in result @ replicate (maxLength - length result) (map_of (word2idx tk) PAD))"

subsection \<open>decode\<close>

text \<open>
  The loop state is (\<open>result\<close>, \<open>currentWord\<close>).  An id that \<open>idx2word\<close> does not know
  gives the token \<open>undefined\<close>, which is not a sub-word and is pushed as it is.
\<close>

fun decode_loop :: "tokenizer \<Rightarrow> tok list \<Rightarrow> string option list \<times> string
                     \<Rightarrow> string option list \<times> string" where
  "decode_loop tk [] s = s"
| "decode_loop tk (idx # rest) (result, currentWord) =
     (if idx = map_of (word2idx tk) PAD \<or> idx = map_of (word2idx tk) START
      then decode_loop tk rest (result, currentWord)
      else if idx = map_of (word2idx tk) END then (result, currentWord)
      else
        (let token = (case idx of None \<Rightarrow> None | Some i \<Rightarrow> map_of (idx2word tk) i)
         in if (case token of None \<Rightarrow> False | Some t \<Rightarrow> has (subwords tk) t)
            then decode_loop tk rest (result, currentWord @ the token)
            else
              (let result1 = (if length currentWord > 0 then result @ [Some currentWord]
                              else result);
                   result2 = (if token \<noteq> Some UNK then result1 @ [token]
                              else result1 @ [Some ''?''])
               in decode_loop tk rest (result2, []))))"

definition decode :: "tokenizer \<Rightarrow> tok list \<Rightarrow> string" where
  "decode tk sequence =
     (case decode_loop tk sequence ([], []) of
        (result, currentWord) \<Rightarrow>
          join '' '' (if length currentWord > 0 then result @ [Some currentWord] else result))"

section \<open>The language model and its collaborators\<close>

text \<open>
  A JavaScript number that may be \<open>NaN\<close> or absent (\<open>undefined\<close>), as the entries
  of a training history are.
\<close>

datatype jsnum = Num real | NaN | Undefined

text \<open>\<open>x > c\<close> on such a value: false for \<open>NaN\<close> and \<open>undefined\<close>.\<close>

fun js_gt :: "jsnum \<Rightarrow> real \<Rightarrow> bool" where
  "js_gt (Num x) c = (x > c)"
| "js_gt NaN c = False"
| "js_gt Undefined c = False"

record parameters =
  learningRate :: real
  batchSize :: nat
  epochs :: nat
  embeddingDim :: nat
  hiddenUnits :: nat
  maxSequenceLength :: nat
  vocabularySize :: nat
  temperature :: real
  numHeads :: nat
  numLayers :: nat
  ffDim :: nat
  dropoutRate :: real

record trainingMetrics =
  totalTrainingSessions :: nat
  totalExamples :: nat
  lastTrainingTime :: "string option"
  accuracy :: jsnum
  loss :: jsnum
  progressLevel :: string

text \<open>
  The conversation context: the turns (user, bot, timestamp) and the topic.  Its other
  fields (levels, languages, teaching mode) are constants of the constructor that no
  function modelled here reads or writes.
\<close>

record conversationContext =
  history :: "(string \<times> string \<times> string) list"
  currentTopic :: "string option"

text \<open>
  The data manager (the model store): \<open>modelData.tokenizer\<close> and \<open>modelData.weights\<close>.
  \<open>saveToStorage\<close> only logs, so the store is the \<open>modelData\<close> object.
\<close>

record 'w dataManager =
  dm_initialized :: bool
  md_tokenizer :: "tokenizer option"
  md_weights :: "'w option"

definition saveTokenizerData :: "tokenizer \<Rightarrow> 'w dataManager \<Rightarrow> bool \<times> 'w dataManager" where
  "saveTokenizerData tokenizerData dm =
     (if \<not> dm_initialized dm then (False, dm)
      else (True, dm\<lparr>md_tokenizer := Some tokenizerData\<rparr>))"

text \<open>
  The instance of \<open>NeuralLanguageModel\<close>.  \<open>'m\<close> is the TensorFlow.js model (its
  architecture and weights), which the repository only uses through the library.
\<close>

record ('m, 'w) nlm =
  initialized :: bool
  model :: "'m option"
  tokenizer :: "tokenizer option"
  dataManager :: "'w dataManager option"
  parameters :: parameters
  conversationContext :: conversationContext
  trainingMetrics :: trainingMetrics

text \<open>The instance as the constructor leaves it.\<close>

definition default_parameters :: parameters where
  "default_parameters =
     \<lparr>learningRate = 0.001, batchSize = 32, epochs = 5, embeddingDim = 512,
      hiddenUnits = 512, maxSequenceLength = 128, vocabularySize = 10000,
      temperature = 0.7, numHeads = 8, numLayers = 8, ffDim = 2048, dropoutRate = 0.1\<rparr>"

definition new_nlm :: "('m, 'w) nlm" where
  "new_nlm =
     \<lparr>initialized = False, model = None, tokenizer = None, dataManager = None,
      parameters = default_parameters,
      conversationContext = \<lparr>history = [], currentTopic = None\<rparr>,
      trainingMetrics =
        \<lparr>totalTrainingSessions = 0, totalExamples = 0, lastTrainingTime = None,
         accuracy = Num 0, loss = Num 0, progressLevel = ''beginner''\<rparr>\<rparr>"

subsection \<open>Curriculum selection in trainModel\<close>

text \<open>
  A conversation pair \<open>[input, output, metadata?]\<close>.  \<open>difficulty\<close> is \<open>None\<close> when the
  pair has no metadata or its \<open>difficulty\<close> is not a string; a non-string difficulty
  gets the ordinal 0 in the source as a missing one does.
\<close>

record pair =
  pair_input :: string
  pair_output :: string
  difficulty :: "string option"

definition difficultyOrder :: "(string \<times> nat) list" where
  "difficultyOrder =
     [(''beginner'', 0), (''elementary'', 1), (''intermediate'', 2),
      (''advanced'', 3), (''expert'', 4)]"

text \<open>
  \<open>difficultyOrder\<close> is an object literal, so \<open>difficultyOrder[d]\<close> also finds the
  properties that every object inherits from \<open>Object.prototype\<close>.  These are functions
  or objects: truthy, so \<open>|| 0\<close> keeps them, and not numbers.
\<close>

definition inherited_names :: "string list" where
  "inherited_names =
     [''constructor'', ''__defineGetter__'', ''__defineSetter__'', ''hasOwnProperty'',
      ''__lookupGetter__'', ''__lookupSetter__'', ''isPrototypeOf'',
      ''propertyIsEnumerable'', ''toString'', ''valueOf'', ''__proto__'',
      ''toLocaleString'']"

datatype jsord = Ordinal nat | NonNumber

text \<open>\<open>difficultyOrder[d] || 0\<close>\<close>

definition order_value :: "string \<Rightarrow> jsord" where
  "order_value d =
     (case map_of difficultyOrder d of
        Some n \<Rightarrow> Ordinal n
      | None \<Rightarrow> if d \<in> set inherited_names then NonNumber else Ordinal 0)"

text \<open>
  \<open>a <= b\<close> and \<open>a === b + k\<close> on such values.  A function or object compares as
  \<open>NaN\<close>, and adding a number to it gives a string, so both are false unless both sides
  are numbers.
\<close>

fun js_le :: "jsord \<Rightarrow> jsord \<Rightarrow> bool" where
  "js_le (Ordinal x) (Ordinal y) = (x \<le> y)"
| "js_le a b = False"

fun js_eq_plus :: "jsord \<Rightarrow> jsord \<Rightarrow> nat \<Rightarrow> bool" where
  "js_eq_plus (Ordinal x) (Ordinal y) k = (x = y + k)"
| "js_eq_plus a b k = False"

text \<open>\<open>metadata && metadata.difficulty ? metadata.difficulty : 'beginner'\<close>, then its ordinal.\<close>

definition difficultyValue :: "pair \<Rightarrow> jsord" where
  "difficultyValue p =
     order_value (case difficulty p of
                    None \<Rightarrow> ''beginner''
                  | Some d \<Rightarrow> if d = [] then ''beginner'' else d)"

definition hasDifficultyMetadata :: "pair list \<Rightarrow> bool" where
  "hasDifficultyMetadata conversationData = (\<exists>p \<in> set conversationData. difficulty p \<noteq> None)"

text \<open>
  \<open>Math.random\<close> is a sequence \<open>rnd\<close> of draws and the number \<open>n\<close> of draws made so
  far.  The filter predicate evaluates its disjuncts from left to right and stops at the
  first true one, so a draw is made only when the comparison before it holds.
\<close>

fun curriculum_filter :: "jsord \<Rightarrow> (nat \<Rightarrow> real) \<Rightarrow> nat \<Rightarrow> pair list \<Rightarrow> pair list \<times> nat" where
  "curriculum_filter currentLevelValue rnd n [] = ([], n)"
| "curriculum_filter currentLevelValue rnd n (p # ps) =
     (let dv = difficultyValue p in
      if js_le dv currentLevelValue then
        (case curriculum_filter currentLevelValue rnd n ps of (r, n') \<Rightarrow> (p # r, n'))
      else if js_eq_plus dv currentLevelValue 1 then
        (if rnd n < 0.5 then
           (case curriculum_filter currentLevelValue rnd (n + 1) ps of (r, n') \<Rightarrow> (p # r, n'))
         else curriculum_filter currentLevelValue rnd (n + 1) ps)
      else if js_eq_plus dv currentLevelValue 2 then
        (if rnd n < 0.2 then
           (case curriculum_filter currentLevelValue rnd (n + 1) ps of (r, n') \<Rightarrow> (p # r, n'))
         else curriculum_filter currentLevelValue rnd (n + 1) ps)
      else curriculum_filter currentLevelValue rnd n ps)"

text \<open>The curriculum part of \<open>trainModel\<close>: the examples trained on (\<open>curriculumData\<close>).\<close>

definition select_curriculum :: "string \<Rightarrow> (nat \<Rightarrow> real) \<Rightarrow> pair list \<Rightarrow> pair list" where
  "select_curriculum progress rnd conversationData =
     (if hasDifficultyMetadata conversationData then
        (let currentLevel = (if progress = [] then ''beginner'' else progress);
             currentLevelValue = order_value currentLevel;
             curriculumData = fst (curriculum_filter currentLevelValue rnd 0 conversationData)
         in if length curriculumData < 10 then conversationData else curriculumData)
      else conversationData)"

text \<open>
  The claim's wording, for comparison.  The ordinal of a difficulty: the five levels
  are 0 to 4, everything else, and a missing tag, is beginner.  The draw of the example
  at position \<open>i\<close> is its own one, the number of earlier examples that needed a draw.
\<close>

definition level_ordinal :: "string \<Rightarrow> nat" where
  "level_ordinal d = get_or0 difficultyOrder d"

definition spec_ordinal :: "pair \<Rightarrow> nat" where
  "spec_ordinal p = (case difficulty p of None \<Rightarrow> 0 | Some d \<Rightarrow> level_ordinal d)"

definition needs_draw :: "nat \<Rightarrow> pair \<Rightarrow> bool" where
  "needs_draw L p = (spec_ordinal p = L + 1 \<or> spec_ordinal p = L + 2)"

definition draw_index :: "nat \<Rightarrow> pair list \<Rightarrow> nat \<Rightarrow> nat" where
  "draw_index L ps i = length (filter (needs_draw L) (take i ps))"

definition spec_included :: "nat \<Rightarrow> pair \<Rightarrow> real \<Rightarrow> bool" where
  "spec_included L p r =
     (spec_ordinal p \<le> L
      \<or> spec_ordinal p = L + 1 \<and> r < 0.5
      \<or> spec_ordinal p = L + 2 \<and> r < 0.2)"

text \<open>The examples kept when \<open>n\<close> draws were made before the first example.\<close>

definition kept_from :: "nat \<Rightarrow> (nat \<Rightarrow> real) \<Rightarrow> nat \<Rightarrow> pair list \<Rightarrow> pair list" where
  "kept_from L rnd n ps =
     map (\<lambda>i. ps ! i)
       (filter (\<lambda>i. spec_included L (ps ! i) (rnd (n + draw_index L ps i))) [0 ..< length ps])"



subsection \<open>saveModel and trainModel\<close>

text \<open>
  \<open>saveModel\<close> stores the tokenizer tables only (the weights are not written: saving
  them is commented out in the source).  A missing tokenizer or data manager raises a
  \<open>TypeError\<close> inside the \<open>try\<close>, which gives \<open>false\<close>.
\<close>

definition saveModel :: "('m, 'w) nlm \<Rightarrow> bool \<times> ('m, 'w) nlm" where
  "saveModel st =
     (if \<not> initialized st \<or> model st = None then (False, st)
      else (case tokenizer st of
              None \<Rightarrow> (False, st)
            | Some tokenizerData \<Rightarrow>
                (case dataManager st of
                   None \<Rightarrow> (False, st)
                 | Some dm \<Rightarrow>
                     (True, st\<lparr>dataManager := Some (snd (saveTokenizerData tokenizerData dm))\<rparr>))))"

text \<open>
  What the TensorFlow.js calls of \<open>trainModel\<close> do is given from outside: building the
  tensors may throw (before the \<open>try\<close>, so the exception leaves \<open>trainModel\<close>),
  \<open>model.fit\<close> may throw (inside the \<open>try\<close>), or it returns a history whose
  \<open>accuracy\<close> and \<open>loss\<close> arrays may be absent.  In each case the model may have
  been changed in place.  A missing tokenizer raises a \<open>TypeError\<close> before the
  \<open>try\<close> as well.
\<close>

datatype 'm fit_outcome =
    TensorThrows
  | FitThrows 'm
  | FitHistory 'm "jsnum list option" "jsnum list option"

datatype train_error = UncaughtException

text \<open>\<open>xs[xs.length - 1]\<close>\<close>

definition last_elem :: "jsnum list \<Rightarrow> jsnum" where
  "last_elem xs = (if xs = [] then Undefined else last xs)"

definition levels :: "string list" where
  "levels = [''beginner'', ''elementary'', ''intermediate'', ''advanced'', ''expert'']"

fun indexOf :: "'a list \<Rightarrow> 'a \<Rightarrow> int" where
  "indexOf [] x = -1"
| "indexOf (y # ys) x = (if y = x then 0 else (let k = indexOf ys x in if k < 0 then -1 else k + 1))"

definition advance_progress :: "trainingMetrics \<Rightarrow> trainingMetrics" where
  "advance_progress tm =
     (if js_gt (accuracy tm) 0.8 then
        (let currentLevel = (if progressLevel tm = [] then ''beginner'' else progressLevel tm);
             currentIndex = indexOf levels currentLevel
         in if currentIndex < int (length levels) - 1
            then tm\<lparr>progressLevel := levels ! nat (currentIndex + 1)\<rparr>
            else tm)
      else tm)"

definition trainModel ::
  "('m \<Rightarrow> tok list list \<Rightarrow> tok list list \<Rightarrow> tok list list \<Rightarrow> nat \<Rightarrow> 'm fit_outcome)
   \<Rightarrow> (nat \<Rightarrow> real) \<Rightarrow> string \<Rightarrow> pair list \<Rightarrow> ('m, 'w) nlm
   \<Rightarrow> train_error + (bool \<times> ('m, 'w) nlm)" where
  "trainModel tf_fit rnd now conversationData st =
     (if \<not> initialized st \<or> model st = None then Inr (False, st)
      else
        (let curriculumData =
               select_curriculum (progressLevel (trainingMetrics st)) rnd conversationData;
             maxLength = maxSequenceLength (parameters st)
         in case tokenizer st of
              None \<Rightarrow> Inl UncaughtException
            | Some tk \<Rightarrow>
                (let encoderInputData = map (\<lambda>p. encode tk (pair_input p) maxLength) curriculumData;
                     decoderInputData = map (\<lambda>p. encode tk (pair_output p) maxLength) curriculumData;
                     decoderTargetData =
                       map (\<lambda>d. drop 1 d @ [map_of (word2idx tk) PAD]) decoderInputData
                 in case tf_fit (the (model st)) encoderInputData decoderInputData
                           decoderTargetData (vocabSize tk) of
                      TensorThrows \<Rightarrow> Inl UncaughtException
                    | FitThrows m \<Rightarrow> Inr (False, st\<lparr>model := Some m\<rparr>)
                    | FitHistory m acc ls \<Rightarrow>
                        (let tm1 = (trainingMetrics st)
                               \<lparr>totalTrainingSessions := totalTrainingSessions (trainingMetrics st) + 1,
                                totalExamples := totalExamples (trainingMetrics st) + length curriculumData,
                                lastTrainingTime := Some now\<rparr>;
                             st1 = st\<lparr>model := Some m, trainingMetrics := tm1\<rparr>
                         in case acc of
                              None \<Rightarrow> Inr (False, st1)
                            | Some accs \<Rightarrow>
                                (let tm2 = tm1\<lparr>accuracy := last_elem accs\<rparr>
                                 in case ls of
                                      None \<Rightarrow> Inr (False, st1\<lparr>trainingMetrics := tm2\<rparr>)
                                    | Some losses \<Rightarrow>
                                        (let tm3 = tm2\<lparr>loss := last_elem losses\<rparr>;
                                             st2 = st1\<lparr>trainingMetrics := advance_progress tm3\<rparr>
                                         in Inr (True, snd (saveModel st2))))))))"

subsection \<open>generateFallbackResponse\<close>

text \<open>\<open>s.includes(kw)\<close>; a regular expression \<open>a|b|c\<close> matches when one alternative occurs.\<close>

fun str_includes :: "string \<Rightarrow> string \<Rightarrow> bool" where
  "str_includes [] kw = (kw = [])"
| "str_includes (c # cs) kw = (take (length kw) (c # cs) = kw \<or> str_includes cs kw)"

definition match_any :: "string \<Rightarrow> string list \<Rightarrow> bool" where
  "match_any s kws = (\<exists>kw \<in> set kws. str_includes s kw)"

definition greeting_reply :: string where
  "greeting_reply = ''Hello! I'm still learning, but I'm happy to chat with you. How can I help with your language learning today?''"

definition farewell_reply :: string where
  "farewell_reply = ''Goodbye! Thanks for chatting with me. I'm learning from our conversation!''"

definition about_reply :: string where
  "about_reply = ''I'm MR Bot, a self-learning language teaching assistant. I'm designed to learn from our conversations to help you better!''"

definition learning_reply :: string where
  "learning_reply = ''I'd be happy to help you learn languages! As we talk more, I'll get better at teaching you. What specific language would you like to practice?''"

definition defaultResponses :: "string list" where
  "defaultResponses =
     [''I'm still learning from our conversations. Could you tell me more?'',
      ''That's interesting! As we talk more, I'll get better at responding.'',
      ''I'm processing what you said. My neural network is learning from this interaction!'',
      ''Thanks for chatting with me. Each conversation helps me learn and improve.'',
      ''I'm designed to learn from our conversations. Please continue, and I'll get better over time.'']"

definition greeting_words :: "string list" where
  "greeting_words = [''hello'', ''hi'', ''hey'', ''good morning'', ''good afternoon'',
                     ''good evening'', ''how are you'']"

definition farewell_words :: "string list" where
  "farewell_words = [''goodbye'', ''bye'', ''see you'', ''take care'']"

definition about_words :: "string list" where
  "about_words = [''who are you'', ''what are you'', ''tell me about yourself'']"

definition learning_words :: "string list" where
  "learning_words = [''teach'', ''learn'', ''language'', ''word'', ''grammar'', ''vocabulary'',
                     ''speak'', ''write'']"

text \<open>
  \<open>r\<close> is the draw of \<open>Math.random()\<close>, used by the default branch only.  The result
  is \<open>None\<close> (\<open>undefined\<close>) when the index leaves the array, which a draw in [0, 1)
  never does.
\<close>

definition generateFallbackResponse :: "string \<Rightarrow> real \<Rightarrow> string option" where
  "generateFallbackResponse userInput r =
     (let inp = toLowerCase userInput in
      if match_any inp greeting_words then Some greeting_reply
      else if match_any inp farewell_words then Some farewell_reply
      else if match_any inp about_words then Some about_reply
      else if match_any inp learning_words then Some learning_reply
      else (let k = \<lfloor>r * real (length defaultResponses)\<rfloor>
            in if 0 \<le> k \<and> k < int (length defaultResponses)
               then Some (defaultResponses ! nat k) else None))"

subsection \<open>updateConversationContext\<close>

definition topicKeywords :: "(string \<times> string list) list" where
  "topicKeywords =
     [(''greeting'', [''hello'', ''hi'', ''hey'', ''morning'', ''afternoon'', ''evening'']),
      (''farewell'', [''goodbye'', ''bye'', ''see you'', ''later'', ''take care'']),
      (''vocabulary'', [''word'', ''vocabulary'', ''mean'', ''definition'', ''translate'']),
      (''grammar'', [''grammar'', ''sentence'', ''structure'', ''tense'', ''conjugate'']),
      (''conversation'', [''talk'', ''speak'', ''conversation'', ''practice'', ''dialogue''])]"

definition updateConversationContext ::
  "string \<Rightarrow> string \<Rightarrow> string \<Rightarrow> conversationContext \<Rightarrow> conversationContext" where
  "updateConversationContext userInput botResponse now ctx =
     (let h = history ctx @ [(userInput, botResponse, now)];
          h' = (if length h > 50 then tl h else h)
      in ctx\<lparr>history := h',
             currentTopic :=
               (case find (\<lambda>e. match_any (toLowerCase userInput) (snd e)) topicKeywords of
                  None \<Rightarrow> currentTopic ctx
                | Some e \<Rightarrow> Some (fst e))\<rparr>)"

subsection \<open>Beam search in generateResponse\<close>

text \<open>
  The TensorFlow.js side of the decoding, given from outside.  \<open>topk_predict\<close> stands
  for \<open>model.predict\<close>, the slice at position \<open>i\<close>, \<open>log\<close>, the division by the
  temperature and \<open>topk(beamWidth)\<close>: it yields \<open>indices[k]\<close> and \<open>values[k]\<close>, or
  \<open>None\<close> when one of these calls throws.  Scores are floating-point numbers; only
  their operations are named: the initial score 0, \<open>score + Math.log(value)\<close>, and
  whether the comparator \<open>b.score - a.score\<close> is positive.
\<close>

record ('m, 's) tf =
  tensor2d_ok :: "tok list \<Rightarrow> bool"
  topk_predict :: "'m \<Rightarrow> tok list \<Rightarrow> tok list \<Rightarrow> nat \<Rightarrow> nat \<Rightarrow> real \<Rightarrow> (nat \<Rightarrow> nat \<times> 's) option"
  zero_score :: 's
  add_log :: "'s \<Rightarrow> 's \<Rightarrow> 's"
  cmp_positive :: "'s \<Rightarrow> 's \<Rightarrow> bool"

record 's beam =
  sequence :: "tok list"
  score :: 's

definition beamWidth :: nat where
  "beamWidth = 3"

text \<open>\<open>beam.sequence[beam.sequence.length - 1] === END\<close>\<close>

definition beam_ended :: "tokenizer \<Rightarrow> 's beam \<Rightarrow> bool" where
  "beam_ended tk b =
     ((if sequence b = [] then None else last (sequence b)) = map_of (word2idx tk) END)"

definition expand_beam ::
  "('m, 's) tf \<Rightarrow> 'm \<Rightarrow> tokenizer \<Rightarrow> real \<Rightarrow> tok list \<Rightarrow> nat \<Rightarrow> nat \<Rightarrow> 's beam
   \<Rightarrow> 's beam list option" where
  "expand_beam env m tk temp encoderInput maxLength i b =
     (let currentDecoderInput =
            sequence b @ replicate (maxLength - length (sequence b)) (map_of (word2idx tk) PAD)
      in case topk_predict env m encoderInput currentDecoderInput i (vocabSize tk) temp of
           None \<Rightarrow> None
         | Some topk \<Rightarrow>
             Some (map (\<lambda>k. \<lparr>sequence = sequence b @ [Some (fst (topk k))],
                              score = add_log env (score b) (snd (topk k))\<rparr>)
                       [0 ..< beamWidth]))"

fun beam_candidates ::
  "('m, 's) tf \<Rightarrow> 'm \<Rightarrow> tokenizer \<Rightarrow> real \<Rightarrow> tok list \<Rightarrow> nat \<Rightarrow> nat \<Rightarrow> 's beam list
   \<Rightarrow> 's beam list option" where
  "beam_candidates env m tk temp encoderInput maxLength i [] = Some []"
| "beam_candidates env m tk temp encoderInput maxLength i (b # bs) =
     (if beam_ended tk b then
        map_option (\<lambda>r. b # r) (beam_candidates env m tk temp encoderInput maxLength i bs)
      else
        (case expand_beam env m tk temp encoderInput maxLength i b of
           None \<Rightarrow> None
         | Some cs \<Rightarrow>
             map_option (\<lambda>r. cs @ r)
               (beam_candidates env m tk temp encoderInput maxLength i bs)))"

text \<open>
  \<open>candidates.sort((a, b) => b.score - a.score)\<close> as a stable insertion sort: a
  candidate moves in front of another one only when the comparator says so.
\<close>

fun insert_beam :: "('m, 's) tf \<Rightarrow> 's beam \<Rightarrow> 's beam list \<Rightarrow> 's beam list" where
  "insert_beam env x [] = [x]"
| "insert_beam env x (y # ys) =
     (if cmp_positive env (score x) (score y) then y # insert_beam env x ys
      else x # y # ys)"

definition sort_beams :: "('m, 's) tf \<Rightarrow> 's beam list \<Rightarrow> 's beam list" where
  "sort_beams env cs = foldr (insert_beam env) cs []"

definition beam_step ::
  "('m, 's) tf \<Rightarrow> 'm \<Rightarrow> tokenizer \<Rightarrow> real \<Rightarrow> tok list \<Rightarrow> nat \<Rightarrow> nat \<Rightarrow> 's beam list
   \<Rightarrow> 's beam list option" where
  "beam_step env m tk temp encoderInput maxLength i beams =
     map_option (\<lambda>candidates. take beamWidth (sort_beams env candidates))
       (beam_candidates env m tk temp encoderInput maxLength i beams)"

text \<open>The loop \<open>for (i = 0; i < maxLength - 1; i++)\<close> from \<open>i\<close> on, with its \<open>break\<close>.\<close>

function beam_loop ::
  "('m, 's) tf \<Rightarrow> 'm \<Rightarrow> tokenizer \<Rightarrow> real \<Rightarrow> tok list \<Rightarrow> nat \<Rightarrow> nat \<Rightarrow> 's beam list
   \<Rightarrow> 's beam list option" where
  "beam_loop env m tk temp encoderInput maxLength i beams =
     (if i < maxLength - 1 then
        (case beam_step env m tk temp encoderInput maxLength i beams of
           None \<Rightarrow> None
         | Some beams' \<Rightarrow>
             if list_all (beam_ended tk) beams' then Some beams'
             else beam_loop env m tk temp encoderInput maxLength (i + 1) beams')
      else Some beams)"
  by pat_completeness auto
termination
  by (relation "measure (\<lambda>(env, m, tk, temp, encoderInput, maxLength, i, beams). maxLength - 1 - i)")
     auto

declare beam_loop.simps [simp del]

definition beam_search ::
  "('m, 's) tf \<Rightarrow> 'm \<Rightarrow> tokenizer \<Rightarrow> real \<Rightarrow> tok list \<Rightarrow> nat \<Rightarrow> 's beam list option" where
  "beam_search env m tk temp encoderInput maxLength =
     beam_loop env m tk temp encoderInput maxLength 0
       [\<lparr>sequence = [map_of (word2idx tk) START], score = zero_score env\<rparr>]"

definition initializing_reply :: string where
  "initializing_reply = ''I'm still initializing. Please try again in a moment.''"

text \<open>
  \<open>generateResponse\<close> returns the response and the new state.  Every exception inside
  its \<open>try\<close> (a missing tokenizer, a failing tensor call, no best beam) leads to the
  fallback response.
\<close>

definition generateResponse ::
  "('m, 's) tf \<Rightarrow> real \<Rightarrow> string \<Rightarrow> string \<Rightarrow> ('m, 'w) nlm \<Rightarrow> string option \<times> ('m, 'w) nlm" where
  "generateResponse env r now userInput st =
     (if \<not> initialized st \<or> model st = None then (Some initializing_reply, st)
      else if totalExamples (trainingMetrics st) < 100
      then (generateFallbackResponse userInput r, st)
      else
        (case tokenizer st of
           None \<Rightarrow> (generateFallbackResponse userInput r, st)
         | Some tk \<Rightarrow>
             (let maxLength = maxSequenceLength (parameters st);
                  encoderInput = encode tk userInput maxLength
              in if \<not> tensor2d_ok env encoderInput
                 then (generateFallbackResponse userInput r, st)
                 else
                   (case beam_search env (the (model st)) tk (temperature (parameters st))
                           encoderInput maxLength of
                      None \<Rightarrow> (generateFallbackResponse userInput r, st)
                    | Some [] \<Rightarrow> (generateFallbackResponse userInput r, st)
                    | Some (bestBeam # _) \<Rightarrow>
                        (let responseText = decode tk (sequence bestBeam);
                             st' = st\<lparr>conversationContext :=
                                      updateConversationContext userInput responseText now
                                        (conversationContext st)\<rparr>
                         in (if responseText \<noteq> [] then Some responseText
                             else generateFallbackResponse userInput r, st'))))))"

subsection \<open>exportModel and importModel\<close>








text \<open>
  The state of \<open>fit\<close> between two insertions: the tokenizer built so far and the next
  free id.  The reserved tokens come first, the ids are 0, 1, 2, ... in insertion order,
  no word occurs twice, and \<open>idx2word\<close> mirrors \<open>word2idx\<close>.
\<close>

definition reserved_entries :: "(string \<times> nat) list" where
  "reserved_entries = [(''<PAD>'', 0), (''<UNK>'', 1), (''<START>'', 2), (''<END>'', 3)]"

definition vocab_inv :: "tokenizer \<times> nat \<Rightarrow> bool" where
  "vocab_inv s =
     (case s of (tk, idx) \<Rightarrow>
        take 4 (word2idx tk) = reserved_entries
        \<and> map snd (word2idx tk) = [0 ..< idx]
        \<and> distinct (map fst (word2idx tk))
        \<and> idx2word tk = map (\<lambda>e. (snd e, fst e)) (word2idx tk))"

text \<open>Sub-word candidates: distinct keys of at most four characters.\<close>

definition short_keys :: "(string \<times> nat) list \<Rightarrow> bool" where
  "short_keys m = (distinct (map fst m) \<and> (\<forall>k \<in> fst ` set m. length k \<le> 4))"

text \<open>A word that is in the vocabulary as a whole word, not as a sub-word.\<close>

definition whole_word :: "tokenizer \<Rightarrow> string \<Rightarrow> bool" where
  "whole_word tk w = (has (word2idx tk) w \<and> \<not> has (subwords tk) w)"

text \<open>
  The sub-word table after \<open>fit\<close>: every entry is also an entry of \<open>word2idx\<close>, with
  the same id, and its key has two to four characters.
\<close>

definition long_keys :: "(string \<times> nat) list \<Rightarrow> bool" where
  "long_keys m = (\<forall>k \<in> fst ` set m. 2 \<le> length k)"

definition subwords_inv :: "tokenizer \<Rightarrow> bool" where
  "subwords_inv tk =
     (\<forall>e \<in> set (subwords tk).
        e \<in> set (word2idx tk) \<and> 2 \<le> length (fst e) \<and> length (fst e) \<le> 4)"

text \<open>A word whose encoding holds no UNKNOWN id.\<close>

definition unk_free :: "tokenizer \<Rightarrow> string \<Rightarrow> bool" where
  "unk_free tk w = (map_of (word2idx tk) UNK \<notin> set (encode_word tk w))"

text \<open>Of any two neighbouring words at least one is a whole-word entry.\<close>

fun separated :: "tokenizer \<Rightarrow> string list \<Rightarrow> bool" where
  "separated tk (w1 # w2 # ws) =
     ((whole_word tk w1 \<or> whole_word tk w2) \<and> separated tk (w2 # ws))"
| "separated tk ws = True"

text \<open>
  \<open>encode\<close> leaves its loop over the words only after the last word: the text has one
  word, or START and the ids of all words but the last are fewer than
  \<open>maxLength - 1\<close>.
\<close>

definition not_truncated :: "tokenizer \<Rightarrow> string list \<Rightarrow> nat \<Rightarrow> bool" where
  "not_truncated tk ws maxLength =
     (length ws \<le> 1
      \<or> length (concat (map (encode_word tk) (butlast ws))) + 3 \<le> maxLength)"

text \<open>The last step of \<open>decode\<close>: the sub-words still accumulated become a word.\<close>

definition flush :: "string option list \<times> string \<Rightarrow> string option list" where
  "flush s = (case s of (result, currentWord) \<Rightarrow>
                if length currentWord > 0 then result @ [Some currentWord] else result)"

text \<open>A word that is none of the four reserved tokens.\<close>

definition plain_word :: "string \<Rightarrow> bool" where
  "plain_word w = (w \<notin> {''<PAD>'', ''<UNK>'', ''<START>'', ''<END>''})"

section \<open>Concrete instances used by the examples\<close>

text \<open>A tokenizer fitted on one short text: its sub-words are \<open>hi\<close> (4) and \<open>yo\<close> (5).\<close>

definition tk_hiyo :: tokenizer where
  "tk_hiyo = fit [''hi yo''] new_tokenizer"

text \<open>A tokenizer whose learned entries are the three whole words \<open>a\<close>, \<open>b\<close>, \<open>c\<close>.\<close>

definition tk_abc :: tokenizer where
  "tk_abc = fit [''a b c''] new_tokenizer"

text \<open>
  A stand-in for TensorFlow.js with integer scores.  The model is a number \<open>m\<close>: at
  position 0 it ranks the token \<open>4 + m\<close> first, later END (3); the other two
  candidates are END with lower scores.
\<close>

definition env_demo :: "(nat, int) tf" where
  "env_demo =
     \<lparr>tensor2d_ok = (\<lambda>row. True),
      topk_predict = (\<lambda>m enc dec i vs temp.
         Some (\<lambda>k. if k = 0 then (if i = 0 then 4 + m else 3, 0) else (3, - int k))),
      zero_score = 0,
      add_log = (\<lambda>a v. a + v),
      cmp_positive = (\<lambda>a b. b - a > 0)\<rparr>"

text \<open>A stand-in whose model ranks END first at every position.\<close>

definition env_end :: "(nat, int) tf" where
  "env_end =
     \<lparr>tensor2d_ok = (\<lambda>row. True),
      topk_predict = (\<lambda>m enc dec i vs temp. Some (\<lambda>k. (3, - int k))),
      zero_score = 0,
      add_log = (\<lambda>a v. a + v),
      cmp_positive = (\<lambda>a b. b - a > 0)\<rparr>"

text \<open>
  An initialized instance with model \<open>m\<close>, the tokenizer fitted on \<open>hi yo\<close>, sequences
  of length 4 and \<open>n\<close> examples trained on.
\<close>

definition st_demo :: "nat \<Rightarrow> nat \<Rightarrow> (nat, unit) nlm" where
  "st_demo m n =
     \<lparr>initialized = True, model = Some m, tokenizer = Some tk_hiyo,
      dataManager = Some \<lparr>dm_initialized = True, md_tokenizer = None, md_weights = None\<rparr>,
      parameters = default_parameters\<lparr>maxSequenceLength := 4\<rparr>,
      conversationContext = \<lparr>history = [], currentTopic = None\<rparr>,
      trainingMetrics =
        \<lparr>totalTrainingSessions = 0, totalExamples = n, lastTrainingTime = None,
         accuracy = Num 0, loss = Num 0, progressLevel = ''beginner''\<rparr>\<rparr>"

text \<open>Fourteen training examples of mixed difficulty, and a sequence of draws.\<close>

definition ex :: "string \<Rightarrow> string option \<Rightarrow> pair" where
  "ex q d = \<lparr>pair_input = q, pair_output = ''ok'', difficulty = d\<rparr>"


definition rnd_demo :: "nat \<Rightarrow> real" where
  "rnd_demo n = (if n = 0 then 0.3 else if n = 1 then 0.7 else 0.1)"

text \<open>A training run whose history reports \<open>NaN\<close> for accuracy and loss.\<close>

definition fit_nan :: "nat \<Rightarrow> tok list list \<Rightarrow> tok list list \<Rightarrow> tok list list \<Rightarrow> nat \<Rightarrow> nat fit_outcome" where
  "fit_nan m encoderInputData decoderInputData decoderTargetData vs =
     FitHistory m (Some [NaN]) (Some [NaN])"



section \<open>Facts about white space, lower case and maps\<close>

lemma find_Some_mem: "find P xs = Some x \<Longrightarrow> x \<in> set xs \<and> P x"
  by (induction xs) (auto split: if_splits)

lemma match_len_ge2: "match_len tk word i = Some len \<Longrightarrow> 2 \<le> len"
  unfolding match_len_def by (drule find_Some_mem) auto

lemma new_tokenizer_sel [simp]:
  "word2idx new_tokenizer = []" "idx2word new_tokenizer = []"
  "subwords new_tokenizer = []" "vocabSize new_tokenizer = 0"
  by (simp_all add: new_tokenizer_def)


section \<open>fit: the invariants of the vocabulary\<close>

lemma update_fresh: "k \<notin> fst ` set m \<Longrightarrow> AList.update k v m = m @ [(k, v)]"
  by (induction m) auto

lemma has_iff_key: "has m k = (k \<in> fst ` set m)"
  by (simp add: has_def map_of_eq_None_iff)

lemma upt_0_4: "[0 ..< 4] = [0, 1, 2, 3 :: nat]"
  by code_simp

lemma vocab_inv_reset: "vocab_inv (reset_tokenizer tk, 4)"
  by (simp add: vocab_inv_def reset_tokenizer_def reserved_entries_def PAD_def UNK_def START_def
      END_def upt_0_4)

lemma vocab_inv_add:
  assumes "vocab_inv (tk, idx)" "w \<notin> fst ` set (word2idx tk)"
    and "word2idx tk' = AList.update w idx (word2idx tk)"
    and "idx2word tk' = AList.update idx w (idx2word tk)"
  shows "vocab_inv (tk', idx + 1)"
proof -
  from assms(1) have inv: "take 4 (word2idx tk) = reserved_entries"
    "map snd (word2idx tk) = [0 ..< idx]" "distinct (map fst (word2idx tk))"
    "idx2word tk = map (\<lambda>e. (snd e, fst e)) (word2idx tk)"
    by (simp_all add: vocab_inv_def)
  have w: "word2idx tk' = word2idx tk @ [(w, idx)]"
    using assms(2,3) by (simp add: update_fresh)
  have "fst ` set (idx2word tk) = set (map snd (word2idx tk))"
    by (simp add: inv(4) image_image)
  then have "idx \<notin> fst ` set (idx2word tk)" by (simp add: inv(2))
  then have i: "idx2word tk' = idx2word tk @ [(idx, w)]"
    using assms(4) by (simp add: update_fresh)
  have "length (take 4 (word2idx tk)) = 4"
    by (simp only: inv(1)) (simp add: reserved_entries_def)
  then have "4 \<le> length (word2idx tk)" by simp
  then have "take 4 (word2idx tk') = reserved_entries" using inv(1) w by simp
  with inv assms(2) w i show ?thesis by (simp add: vocab_inv_def)
qed


lemma fold_add_subword_inv:
  assumes "vocab_inv (tk, idx)" "distinct (map fst es)"
    and "fst ` set es \<inter> fst ` set (word2idx tk) = {}"
  shows "vocab_inv (fold add_subword es (tk, idx))"
  using assms
proof (induction es arbitrary: tk idx)
  case Nil
  then show ?case by simp
next
  case (Cons e es)
  let ?tk = "tk\<lparr>word2idx := AList.update (fst e) idx (word2idx tk),
                 idx2word := AList.update idx (fst e) (idx2word tk),
                 subwords := AList.update (fst e) idx (subwords tk)\<rparr>"
  from Cons.prems(3) have fresh: "fst e \<notin> fst ` set (word2idx tk)" by auto
  have inv: "vocab_inv (?tk, idx + 1)"
    by (rule vocab_inv_add[OF Cons.prems(1) fresh]) simp_all
  have keys: "fst ` set (word2idx ?tk) = insert (fst e) (fst ` set (word2idx tk))"
    by (simp add: update_fresh[OF fresh])
  from Cons.prems(2,3) have "fst ` set es \<inter> fst ` set (word2idx ?tk) = {}"
    unfolding keys by auto
  moreover from Cons.prems(2) have "distinct (map fst es)" by simp
  ultimately have "vocab_inv (fold add_subword es (?tk, idx + 1))"
    using Cons.IH[OF inv] by blast
  moreover have "add_subword e (tk, idx) = (?tk, idx + 1)" by (simp add: add_subword_def)
  ultimately show ?case by simp
qed

lemma add_whole_word_inv:
  assumes "vocab_inv s"
  shows "vocab_inv (add_whole_word e s)"
proof (cases s)
  case (Pair tk idx)
  show ?thesis
  proof (cases "has (word2idx tk) (fst e)")
    case True
    with Pair assms show ?thesis by (simp add: add_whole_word_def)
  next
    case False
    then have fresh: "fst e \<notin> fst ` set (word2idx tk)" by (simp add: has_iff_key)
    let ?tk = "tk\<lparr>word2idx := AList.update (fst e) idx (word2idx tk),
                   idx2word := AList.update idx (fst e) (idx2word tk)\<rparr>"
    have "vocab_inv (?tk, idx + 1)"
      by (rule vocab_inv_add[OF assms[unfolded Pair] fresh]) simp_all
    with False Pair show ?thesis by (simp add: add_whole_word_def)
  qed
qed

lemma fold_add_whole_word_inv:
  "vocab_inv s \<Longrightarrow> vocab_inv (fold add_whole_word es s)"
  by (induction es arbitrary: s) (simp_all add: add_whole_word_inv)

lemma short_keys_update:
  "short_keys m \<Longrightarrow> length k \<le> 4 \<Longrightarrow> short_keys (AList.update k v m)"
  by (auto simp: short_keys_def distinct_update dom_update)

lemma short_keys_fold_update:
  assumes "short_keys c" "n \<le> 4"
  shows "short_keys (fold (\<lambda>i c. let subword = take n (drop i word)
                                  in AList.update subword (get_or0 c subword + freq) c) is c)"
  using assms(1)
proof (induction "is" arbitrary: c)
  case Nil
  then show ?case by simp
next
  case (Cons i "is")
  have "short_keys (AList.update (take n (drop i word)) (get_or0 c (take n (drop i word)) + freq) c)"
    using Cons.prems assms(2) by (intro short_keys_update) simp_all
  from Cons.IH[OF this] show ?case by (simp add: Let_def)
qed

lemma short_keys_add_ngrams: "short_keys c \<Longrightarrow> n \<le> 4 \<Longrightarrow> short_keys (add_ngrams word freq n c)"
  by (simp add: add_ngrams_def short_keys_fold_update del: upt_Suc)

lemma short_keys_add_word_ngrams: "short_keys c \<Longrightarrow> short_keys (add_word_ngrams e c)"
  by (cases e) (simp add: add_word_ngrams_def short_keys_add_ngrams)

lemma short_keys_candidates: "short_keys (subword_candidates wordFreq)"
proof -
  have gen: "short_keys c \<Longrightarrow> short_keys (fold add_word_ngrams wf c)" for wf c
    by (induction wf arbitrary: c) (simp_all add: short_keys_add_word_ngrams)
  have "short_keys []" by (simp add: short_keys_def)
  from gen[OF this] show ?thesis by (simp add: subword_candidates_def)
qed

lemma distinct_keys_insort:
  "distinct (map fst (insort_key f x xs)) = (fst x \<notin> fst ` set xs \<and> distinct (map fst xs))"
  by (induction xs) (auto simp: set_insort_key)

lemma distinct_keys_sort: "distinct (map fst (sort_key f xs)) = distinct (map fst xs)"
proof (induction xs)
  case Nil
  then show ?case by simp
next
  case (Cons a xs)
  have "sort_key f (a # xs) = insort_key f a (sort_key f xs)" by (simp add: sort_key_def)
  with Cons show ?case by (simp add: distinct_keys_insort)
qed

lemma short_keys_take: "short_keys m \<Longrightarrow> short_keys (take n m)"
proof -
  assume m: "short_keys m"
  have "map fst (take n m) = take n (map fst m)" by (simp add: take_map)
  with m have "distinct (map fst (take n m))" by (simp add: short_keys_def)
  moreover have "set (take n m) \<subseteq> set m" by (rule set_take_subset)
  ultimately show ?thesis using m by (auto simp: short_keys_def)
qed

lemma short_keys_sorted: "short_keys m \<Longrightarrow> short_keys (sorted_subwords m)"
  unfolding sorted_subwords_def
  by (rule short_keys_take) (simp add: short_keys_def distinct_keys_sort)

lemma reset_keys:
  "fst ` set (word2idx (reset_tokenizer tk)) = {''<PAD>'', ''<UNK>'', ''<START>'', ''<END>''}"
  by (simp add: reset_tokenizer_def PAD_def UNK_def START_def END_def insert_commute)

lemma reserved_long: "k \<in> {''<PAD>'', ''<UNK>'', ''<START>'', ''<END>''} \<Longrightarrow> 5 \<le> length k"
  by auto

lemma fit_inv:
  "vocab_inv (fold add_whole_word (word_freq texts)
               (fold add_subword (sorted_subwords (subword_candidates (word_freq texts)))
                  (reset_tokenizer tk, 4)))"
proof -
  let ?es = "sorted_subwords (subword_candidates (word_freq texts))"
  have sk: "short_keys ?es" by (intro short_keys_sorted short_keys_candidates)
  have "fst ` set ?es \<inter> fst ` set (word2idx (reset_tokenizer tk)) = {}"
  proof (rule ccontr)
    assume "fst ` set ?es \<inter> fst ` set (word2idx (reset_tokenizer tk)) \<noteq> {}"
    then obtain k where k: "k \<in> fst ` set ?es" "k \<in> fst ` set (word2idx (reset_tokenizer tk))"
      by blast
    from k(1) sk have "length k \<le> 4" unfolding short_keys_def by blast
    moreover from k(2) have "5 \<le> length k" unfolding reset_keys by (rule reserved_long)
    ultimately show False by simp
  qed
  moreover from sk have "distinct (map fst ?es)" by (simp add: short_keys_def)
  ultimately have "vocab_inv (fold add_subword ?es (reset_tokenizer tk, 4))"
    by (intro fold_add_subword_inv vocab_inv_reset)
  then show ?thesis by (rule fold_add_whole_word_inv)
qed


lemma fit_props:
  "take 4 (word2idx (fit texts tk)) = reserved_entries"
  "map snd (word2idx (fit texts tk)) = [0 ..< vocabSize (fit texts tk)]"
  "distinct (map fst (word2idx (fit texts tk)))"
  "idx2word (fit texts tk) = map (\<lambda>e. (snd e, fst e)) (word2idx (fit texts tk))"
proof -
  obtain tk2 idx where s: "fold add_whole_word (word_freq texts)
               (fold add_subword (sorted_subwords (subword_candidates (word_freq texts)))
                  (reset_tokenizer tk, 4)) = (tk2, idx)"
    by (cases "fold add_whole_word (word_freq texts)
               (fold add_subword (sorted_subwords (subword_candidates (word_freq texts)))
                  (reset_tokenizer tk, 4))")
  from fit_inv[of texts tk] have inv: "take 4 (word2idx tk2) = reserved_entries"
    "map snd (word2idx tk2) = [0 ..< idx]" "distinct (map fst (word2idx tk2))"
    "idx2word tk2 = map (\<lambda>e. (snd e, fst e)) (word2idx tk2)"
    unfolding s by (simp_all add: vocab_inv_def)
  have f: "fit texts tk = tk2\<lparr>vocabSize := length (word2idx tk2)\<rparr>"
    by (simp add: fit_def Let_def s)
  from inv(2) have "length (word2idx tk2) = idx"
    by (metis length_map length_upt diff_zero)
  with inv f show
    "take 4 (word2idx (fit texts tk)) = reserved_entries"
    "map snd (word2idx (fit texts tk)) = [0 ..< vocabSize (fit texts tk)]"
    "distinct (map fst (word2idx (fit texts tk)))"
    "idx2word (fit texts tk) = map (\<lambda>e. (snd e, fst e)) (word2idx (fit texts tk))"
    by simp_all
qed

lemma fit_reserved_ids:
  "map_of (word2idx (fit texts tk)) ''<PAD>'' = Some 0"
  "map_of (word2idx (fit texts tk)) ''<UNK>'' = Some 1"
  "map_of (word2idx (fit texts tk)) ''<START>'' = Some 2"
  "map_of (word2idx (fit texts tk)) ''<END>'' = Some 3"
proof -
  have "word2idx (fit texts tk) = reserved_entries @ drop 4 (word2idx (fit texts tk))"
    using fit_props(1)[of texts tk] by (metis append_take_drop_id)
  then obtain rest where r: "word2idx (fit texts tk) = reserved_entries @ rest" ..
  show "map_of (word2idx (fit texts tk)) ''<PAD>'' = Some 0"
    "map_of (word2idx (fit texts tk)) ''<UNK>'' = Some 1"
    "map_of (word2idx (fit texts tk)) ''<START>'' = Some 2"
    "map_of (word2idx (fit texts tk)) ''<END>'' = Some 3"
    unfolding r by (simp_all add: reserved_entries_def)
qed

lemma map_of_swap:
  assumes "distinct (map fst xs)" "distinct (map snd xs)"
  shows "(map_of (map (\<lambda>e. (snd e, fst e)) xs) i = Some w) = (map_of xs w = Some i)"
proof -
  have "distinct (map fst (map (\<lambda>e. (snd e, fst e)) xs))"
    using assms(2) by (simp add: o_def)
  then have "(map_of (map (\<lambda>e. (snd e, fst e)) xs) i = Some w)
             = ((i, w) \<in> set (map (\<lambda>e. (snd e, fst e)) xs))"
    by (rule map_of_eq_Some_iff)
  also have "\<dots> = ((w, i) \<in> set xs)" by force
  also have "\<dots> = (map_of xs w = Some i)"
    using assms(1) by simp
  finally show ?thesis .
qed

lemma fit_inverse:
  "(map_of (idx2word (fit texts tk)) i = Some w) = (map_of (word2idx (fit texts tk)) w = Some i)"
proof -
  have "distinct (map snd (word2idx (fit texts tk)))"
    by (simp add: fit_props(2))
  with fit_props(3)[of texts tk] show ?thesis
    unfolding fit_props(4)[of texts tk] by (rule map_of_swap)
qed

lemma fit_card: "vocabSize (fit texts tk) = card (dom (map_of (word2idx (fit texts tk))))"
proof -
  have "length (map snd (word2idx (fit texts tk))) = vocabSize (fit texts tk)"
    unfolding fit_props(2) by simp
  then have "vocabSize (fit texts tk) = length (map fst (word2idx (fit texts tk)))" by simp
  also have "\<dots> = card (set (map fst (word2idx (fit texts tk))))"
    using fit_props(3)[of texts tk] by (simp only: distinct_card)
  finally show ?thesis by (simp add: dom_map_of_conv_image_fst)
qed

text \<open>The result of \<open>fit\<close> does not depend on the tokenizer it starts from.\<close>

lemma add_subword_vocabSize:
  "add_subword e (tk\<lparr>vocabSize := v\<rparr>, i) =
     (case add_subword e (tk, i) of (tk', i') \<Rightarrow> (tk'\<lparr>vocabSize := v\<rparr>, i'))"
  by (simp add: add_subword_def)

lemma add_whole_word_vocabSize:
  "add_whole_word e (tk\<lparr>vocabSize := v\<rparr>, i) =
     (case add_whole_word e (tk, i) of (tk', i') \<Rightarrow> (tk'\<lparr>vocabSize := v\<rparr>, i'))"
  by (simp add: add_whole_word_def)

lemma fold_add_subword_vocabSize:
  "fold add_subword es (tk\<lparr>vocabSize := v\<rparr>, i) =
     (case fold add_subword es (tk, i) of (tk', i') \<Rightarrow> (tk'\<lparr>vocabSize := v\<rparr>, i'))"
proof (induction es arbitrary: tk i)
  case Nil
  then show ?case by simp
next
  case (Cons e es)
  obtain tk1 i1 where s: "add_subword e (tk, i) = (tk1, i1)" by (cases "add_subword e (tk, i)")
  show ?case by (simp add: add_subword_vocabSize s Cons.IH)
qed

lemma fold_add_whole_word_vocabSize:
  "fold add_whole_word es (tk\<lparr>vocabSize := v\<rparr>, i) =
     (case fold add_whole_word es (tk, i) of (tk', i') \<Rightarrow> (tk'\<lparr>vocabSize := v\<rparr>, i'))"
proof (induction es arbitrary: tk i)
  case Nil
  then show ?case by simp
next
  case (Cons e es)
  obtain tk1 i1 where s: "add_whole_word e (tk, i) = (tk1, i1)" by (cases "add_whole_word e (tk, i)")
  show ?case by (simp add: add_whole_word_vocabSize s Cons.IH)
qed

lemma fit_replaces: "fit texts tk = fit texts tk0"
proof -
  have r: "reset_tokenizer tk = (reset_tokenizer tk0)\<lparr>vocabSize := vocabSize tk\<rparr>"
    by (simp add: reset_tokenizer_def)
  obtain tk1 i1 where s1: "fold add_subword (sorted_subwords (subword_candidates (word_freq texts)))
                  (reset_tokenizer tk0, 4) = (tk1, i1)"
    by (cases "fold add_subword (sorted_subwords (subword_candidates (word_freq texts)))
                  (reset_tokenizer tk0, 4)")
  obtain tk2 i2 where s2: "fold add_whole_word (word_freq texts) (tk1, i1) = (tk2, i2)"
    by (cases "fold add_whole_word (word_freq texts) (tk1, i1)")
  show ?thesis
    by (simp add: fit_def Let_def r fold_add_subword_vocabSize s1 fold_add_whole_word_vocabSize s2)
qed

text \<open>
  C9.  After \<open>fit\<close>, whatever the corpus and the tokenizer before: PAD, UNKNOWN, START
  and END have the ids 0, 1, 2, 3; the ids of the entries, in insertion order, are
  0, 1, ..., \<open>vocabSize - 1\<close>, so the learned entries have the consecutive ids from 4
  on; no word has two entries, and \<open>vocabSize\<close> is the number of entries of
  \<open>word2idx\<close>; \<open>idx2word\<close> is the inverse of \<open>word2idx\<close>; and the result does not
  depend on the vocabulary before the call.
\<close>

theorem fit_vocabulary_invariant:
  "map_of (word2idx (fit texts tk)) ''<PAD>'' = Some 0
   \<and> map_of (word2idx (fit texts tk)) ''<UNK>'' = Some 1
   \<and> map_of (word2idx (fit texts tk)) ''<START>'' = Some 2
   \<and> map_of (word2idx (fit texts tk)) ''<END>'' = Some 3
   \<and> map snd (word2idx (fit texts tk)) = [0 ..< vocabSize (fit texts tk)]
   \<and> map snd (drop 4 (word2idx (fit texts tk))) = [4 ..< vocabSize (fit texts tk)]
   \<and> distinct (map fst (word2idx (fit texts tk)))
   \<and> vocabSize (fit texts tk) = length (word2idx (fit texts tk))
   \<and> vocabSize (fit texts tk) = card (dom (map_of (word2idx (fit texts tk))))
   \<and> (\<forall>w i. (map_of (idx2word (fit texts tk)) i = Some w)
              = (map_of (word2idx (fit texts tk)) w = Some i))
   \<and> fit texts tk = fit texts tk0"
proof -
  have len: "vocabSize (fit texts tk) = length (word2idx (fit texts tk))"
    by (simp add: fit_def Let_def)
  have "map snd (drop 4 (word2idx (fit texts tk))) = drop 4 [0 ..< vocabSize (fit texts tk)]"
    by (simp add: drop_map[symmetric] fit_props(2))
  then have d4: "map snd (drop 4 (word2idx (fit texts tk))) = [4 ..< vocabSize (fit texts tk)]"
    by simp
  show ?thesis
    using fit_reserved_ids[of texts tk] fit_props(2,3)[of texts tk] len d4 fit_card[of texts tk]
      fit_inverse[of texts tk] fit_replaces[of texts tk tk0]
    by blast
qed

subsection \<open>The sub-word table\<close>

lemma set_update_subset: "set (AList.update k v m) \<subseteq> insert (k, v) (set m)"
  by (induction m) auto

lemma long_keys_update: "long_keys m \<Longrightarrow> 2 \<le> length k \<Longrightarrow> long_keys (AList.update k v m)"
  by (auto simp: long_keys_def dom_update)

lemma long_keys_fold_update:
  assumes "long_keys c" "2 \<le> n" "\<forall>i \<in> set is. i + n \<le> length word"
  shows "long_keys (fold (\<lambda>i c. let subword = take n (drop i word)
                                 in AList.update subword (get_or0 c subword + freq) c) is c)"
  using assms(1,3)
proof (induction "is" arbitrary: c)
  case Nil
  then show ?case by simp
next
  case (Cons i "is")
  from Cons.prems(2) have "i + n \<le> length word" by simp
  then have "length (take n (drop i word)) = n" by simp
  with assms(2) have "2 \<le> length (take n (drop i word))" by simp
  with Cons.prems(1)
  have "long_keys (AList.update (take n (drop i word)) (get_or0 c (take n (drop i word)) + freq) c)"
    by (rule long_keys_update)
  moreover from Cons.prems(2) have "\<forall>i \<in> set is. i + n \<le> length word" by simp
  ultimately show ?case using Cons.IH by (simp add: Let_def)
qed

lemma long_keys_add_ngrams:
  assumes "long_keys c" "2 \<le> n"
  shows "long_keys (add_ngrams word freq n c)"
proof (cases "length word < n")
  case True
  with assms(1) show ?thesis by (simp add: add_ngrams_def)
next
  case False
  then have "\<forall>i \<in> set [0 ..< length word - n + 1]. i + n \<le> length word" by auto
  from long_keys_fold_update[OF assms this] False show ?thesis
    by (simp add: add_ngrams_def del: upt_Suc)
qed

lemma long_keys_add_word_ngrams: "long_keys c \<Longrightarrow> long_keys (add_word_ngrams e c)"
  by (cases e) (simp add: add_word_ngrams_def long_keys_add_ngrams)

lemma long_keys_candidates: "long_keys (subword_candidates wordFreq)"
proof -
  have gen: "long_keys c \<Longrightarrow> long_keys (fold add_word_ngrams wf c)" for wf c
    by (induction wf arbitrary: c) (simp_all add: long_keys_add_word_ngrams)
  have "long_keys []" by (simp add: long_keys_def)
  from gen[OF this] show ?thesis by (simp add: subword_candidates_def)
qed

lemma long_keys_sorted: "long_keys m \<Longrightarrow> long_keys (sorted_subwords m)"
proof -
  assume m: "long_keys m"
  have "set (sorted_subwords m) \<subseteq> set m"
    unfolding sorted_subwords_def using set_take_subset[of 5000 "sort_key (\<lambda>e. - int (snd e)) m"]
    by simp
  with m show ?thesis unfolding long_keys_def by blast
qed

lemma add_subword_subwords_inv:
  assumes "subwords_inv tk" "fst e \<notin> fst ` set (word2idx tk)"
    and "2 \<le> length (fst e)" "length (fst e) \<le> 4"
  shows "subwords_inv (fst (add_subword e (tk, idx)))"
proof -
  have w: "AList.update (fst e) idx (word2idx tk) = word2idx tk @ [(fst e, idx)]"
    using assms(2) by (rule update_fresh)
  have "x \<in> set (word2idx tk) \<or> x = (fst e, idx)"
    if "x \<in> set (AList.update (fst e) idx (subwords tk))" for x
    using that set_update_subset[of "fst e" idx "subwords tk"] assms(1)
    unfolding subwords_inv_def by blast
  moreover have "2 \<le> length (fst x) \<and> length (fst x) \<le> 4"
    if "x \<in> set (AList.update (fst e) idx (subwords tk))" for x
    using that set_update_subset[of "fst e" idx "subwords tk"] assms(1,3,4)
    unfolding subwords_inv_def by auto
  ultimately show ?thesis
    unfolding subwords_inv_def by (auto simp: add_subword_def w)
qed

lemma fold_add_subword_subwords_inv:
  assumes "subwords_inv tk" "distinct (map fst es)"
    and "fst ` set es \<inter> fst ` set (word2idx tk) = {}"
    and "\<forall>e \<in> set es. 2 \<le> length (fst e) \<and> length (fst e) \<le> 4"
  shows "subwords_inv (fst (fold add_subword es (tk, idx)))"
  using assms
proof (induction es arbitrary: tk idx)
  case Nil
  then show ?case by simp
next
  case (Cons e es)
  obtain tk1 where s: "add_subword e (tk, idx) = (tk1, idx + 1)"
    by (simp add: add_subword_def)
  from Cons.prems(3) have fresh: "fst e \<notin> fst ` set (word2idx tk)" by auto
  from Cons.prems(4) have len: "2 \<le> length (fst e)" "length (fst e) \<le> 4" by simp_all
  have inv1: "subwords_inv tk1"
    using add_subword_subwords_inv[OF Cons.prems(1) fresh len, of idx] s by simp
  have "word2idx tk1 = word2idx tk @ [(fst e, idx)]"
    using s update_fresh[OF fresh, of idx] by (auto simp: add_subword_def)
  then have keys: "fst ` set (word2idx tk1) = insert (fst e) (fst ` set (word2idx tk))"
    by simp
  from Cons.prems(2,3) have "fst ` set es \<inter> fst ` set (word2idx tk1) = {}"
    unfolding keys by auto
  moreover from Cons.prems(2) have "distinct (map fst es)" by simp
  moreover from Cons.prems(4) have "\<forall>e \<in> set es. 2 \<le> length (fst e) \<and> length (fst e) \<le> 4"
    by simp
  ultimately have "subwords_inv (fst (fold add_subword es (tk1, idx + 1)))"
    using Cons.IH[OF inv1] by blast
  then show ?case by (simp add: s)
qed

lemma add_whole_word_subwords_inv:
  assumes "subwords_inv (fst s)"
  shows "subwords_inv (fst (add_whole_word e s))"
proof (cases s)
  case (Pair tk idx)
  show ?thesis
  proof (cases "has (word2idx tk) (fst e)")
    case True
    with Pair assms show ?thesis by (simp add: add_whole_word_def)
  next
    case False
    then have "AList.update (fst e) idx (word2idx tk) = word2idx tk @ [(fst e, idx)]"
      by (simp add: has_iff_key update_fresh)
    with False Pair assms show ?thesis
      by (auto simp: add_whole_word_def subwords_inv_def)
  qed
qed

lemma fold_add_whole_word_subwords_inv:
  "subwords_inv (fst s) \<Longrightarrow> subwords_inv (fst (fold add_whole_word es s))"
  by (induction es arbitrary: s) (simp_all add: add_whole_word_subwords_inv)

lemma fit_subwords_inv: "subwords_inv (fit texts tk)"
proof -
  let ?es = "sorted_subwords (subword_candidates (word_freq texts))"
  have sk: "short_keys ?es" by (intro short_keys_sorted short_keys_candidates)
  have lk: "long_keys ?es" by (intro long_keys_sorted long_keys_candidates)
  have disj: "fst ` set ?es \<inter> fst ` set (word2idx (reset_tokenizer tk)) = {}"
  proof (rule ccontr)
    assume "fst ` set ?es \<inter> fst ` set (word2idx (reset_tokenizer tk)) \<noteq> {}"
    then obtain k where k: "k \<in> fst ` set ?es" "k \<in> fst ` set (word2idx (reset_tokenizer tk))"
      by blast
    from k(1) sk have "length k \<le> 4" unfolding short_keys_def by blast
    moreover from k(2) have "5 \<le> length k" unfolding reset_keys by (rule reserved_long)
    ultimately show False by simp
  qed
  have len: "\<forall>e \<in> set ?es. 2 \<le> length (fst e) \<and> length (fst e) \<le> 4"
    using sk lk unfolding short_keys_def long_keys_def by auto
  have r: "subwords_inv (reset_tokenizer tk)"
    by (simp add: subwords_inv_def reset_tokenizer_def)
  from sk have "distinct (map fst ?es)" by (simp add: short_keys_def)
  from fold_add_subword_subwords_inv[OF r this disj len, of 4]
  have "subwords_inv (fst (fold add_whole_word (word_freq texts)
                             (fold add_subword ?es (reset_tokenizer tk, 4))))"
    by (rule fold_add_whole_word_subwords_inv)
  then show ?thesis by (simp add: fit_def Let_def subwords_inv_def)
qed

lemma fit_subword_entry:
  assumes "map_of (subwords (fit texts tk)) s = Some i"
  shows "map_of (word2idx (fit texts tk)) s = Some i" "2 \<le> length s" "length s \<le> 4"
proof -
  from assms have "(s, i) \<in> set (subwords (fit texts tk))" by (rule map_of_SomeD)
  with fit_subwords_inv[of texts tk]
  have e: "(s, i) \<in> set (word2idx (fit texts tk))" and l: "2 \<le> length s" "length s \<le> 4"
    unfolding subwords_inv_def by auto
  from e fit_props(3)[of texts tk] show "map_of (word2idx (fit texts tk)) s = Some i" by simp
  from l show "2 \<le> length s" "length s \<le> 4" .
qed

section \<open>encode: the length of the result\<close>

lemma encode_length_ge: "maxLength \<le> length (encode tk text maxLength)"
  by (simp add: encode_def Let_def)

text \<open>
  C1.  \<open>encode\<close> is to return exactly \<open>maxLength\<close> ids.  The length check of the source
  follows each whole word, so a word outside the vocabulary, which contributes one id per
  sub-word or unmatched character, takes the result beyond \<open>maxLength\<close>: on a tokenizer
  fitted on \<open>hi yo\<close>, the text \<open>zzzzzz\<close> with \<open>maxLength = 4\<close> gives nine ids (START,
  seven UNKNOWN, END), and with \<open>maxLength = 2\<close> even the in-vocabulary text \<open>hi\<close>
  gives three.
\<close>

theorem encode_exceeds_maxLength:
  "encode tk_hiyo ''zzzzzz'' 4
     = [Some 2, Some 1, Some 1, Some 1, Some 1, Some 1, Some 1, Some 1, Some 3]
   \<and> encode tk_hiyo ''hi'' 2 = [Some 2, Some 4, Some 3]"
  by code_simp

section \<open>decode after encode\<close>

lemma lower_char_not_upper: "lower_char c \<notin> set ''ABCDEFGHIJKLMNOPQRSTUVWXYZ''"
  by (simp add: lower_char_def)

lemma toLowerCase_no_upper: "c \<in> set (toLowerCase s) \<Longrightarrow> c \<notin> set ''ABCDEFGHIJKLMNOPQRSTUVWXYZ''"
  using lower_char_not_upper by (auto simp: toLowerCase_def simp del: set_simps)

lemma set_split_ws: "w \<in> set (split_ws s) \<Longrightarrow> set w \<subseteq> set s"
proof (induction s arbitrary: w rule: split_ws.induct)
  case 1
  then show ?case by simp
next
  case (2 c cs)
  show ?case
  proof (cases "is_space c")
    case True
    then show ?thesis using 2 by (auto split: if_splits)
  next
    case False
    show ?thesis
    proof (cases "split_ws cs")
      case Nil
      with False 2 show ?thesis by auto
    next
      case (Cons a list)
      with False "2.prems" have "w = c # a \<or> w \<in> set list" by simp
      moreover have "set a \<subseteq> set cs" using "2.IH"(3)[OF False, of a] Cons by simp
      moreover have "w \<in> set list \<Longrightarrow> set w \<subseteq> set cs"
        using "2.IH"(3)[OF False, of w] Cons by simp
      ultimately show ?thesis by auto
    qed
  qed
qed

lemma lower_word_not_reserved:
  assumes "w \<in> set (split_ws (toLowerCase text))"
  shows "w \<noteq> ''<PAD>''" "w \<noteq> ''<UNK>''" "w \<noteq> ''<START>''" "w \<noteq> ''<END>''"
proof -
  have nu: "c \<in> set w \<Longrightarrow> c \<notin> set ''ABCDEFGHIJKLMNOPQRSTUVWXYZ''" for c
    using set_split_ws[OF assms] toLowerCase_no_upper[of c "text"] by blast
  show "w \<noteq> ''<PAD>''" using nu[of "CHR ''P''"] by auto
  show "w \<noteq> ''<UNK>''" using nu[of "CHR ''U''"] by auto
  show "w \<noteq> ''<START>''" using nu[of "CHR ''S''"] by auto
  show "w \<noteq> ''<END>''" using nu[of "CHR ''E''"] by auto
qed

lemma fit_plain_id:
  assumes "map_of (word2idx (fit texts tk0)) w = Some i" "plain_word w"
  shows "i \<noteq> 0" "i \<noteq> 2" "i \<noteq> 3" "map_of (idx2word (fit texts tk0)) i = Some w"
proof -
  let ?tk = "fit texts tk0"
  from assms(1) show inv: "map_of (idx2word ?tk) i = Some w" by (simp add: fit_inverse)
  show "i \<noteq> 0"
  proof
    assume "i = 0"
    moreover have "map_of (idx2word ?tk) 0 = Some ''<PAD>''"
      using fit_reserved_ids(1)[of texts tk0] by (simp add: fit_inverse)
    ultimately show False using inv assms(2) by (simp add: plain_word_def)
  qed
  show "i \<noteq> 2"
  proof
    assume "i = 2"
    moreover have "map_of (idx2word ?tk) 2 = Some ''<START>''"
      using fit_reserved_ids(3)[of texts tk0] by (simp add: fit_inverse)
    ultimately show False using inv assms(2) by (simp add: plain_word_def)
  qed
  show "i \<noteq> 3"
  proof
    assume "i = 3"
    moreover have "map_of (idx2word ?tk) 3 = Some ''<END>''"
      using fit_reserved_ids(4)[of texts tk0] by (simp add: fit_inverse)
    ultimately show False using inv assms(2) by (simp add: plain_word_def)
  qed
qed

lemma short_plain: "length s \<le> 4 \<Longrightarrow> plain_word s"
  by (auto simp: plain_word_def)

lemma decode_whole_word_id:
  assumes "whole_word (fit texts tk0) w" "plain_word w"
  shows "decode_loop (fit texts tk0) (map_of (word2idx (fit texts tk0)) w # rest) (res, cur)
         = decode_loop (fit texts tk0) rest (flush (res, cur) @ [Some w], [])"
proof -
  let ?tk = "fit texts tk0"
  from assms(1) obtain i where i: "map_of (word2idx ?tk) w = Some i"
    and nsub: "\<not> has (subwords ?tk) w"
    by (auto simp: whole_word_def has_def)
  note id = fit_plain_id[OF i assms(2)]
  from assms(2) have "w \<noteq> ''<UNK>''" by (simp add: plain_word_def)
  with id nsub show ?thesis
    unfolding i
    by (simp add: fit_reserved_ids PAD_def START_def END_def UNK_def Let_def flush_def)
qed

lemma decode_subword_id:
  assumes "map_of (subwords (fit texts tk0)) s = Some i"
  shows "decode_loop (fit texts tk0) (Some i # rest) (res, cur)
         = decode_loop (fit texts tk0) rest (res, cur @ s)"
proof -
  let ?tk = "fit texts tk0"
  note e = fit_subword_entry[OF assms]
  note id = fit_plain_id[OF e(1) short_plain[OF e(3)]]
  from assms have "has (subwords ?tk) s" by (simp add: has_def)
  with id show ?thesis
    by (simp add: fit_reserved_ids PAD_def START_def END_def Let_def)
qed

lemma decode_subword_tokens:
  assumes "Some 1 \<notin> set (fst (encode_subwords (fit texts tk0) w i))"
  shows "decode_loop (fit texts tk0) (fst (encode_subwords (fit texts tk0) w i) @ rest) (res, cur)
         = decode_loop (fit texts tk0) rest (res, cur @ drop i w)"
  using assms
proof (induction "length w - i" arbitrary: i cur rule: less_induct)
  case less
  let ?tk = "fit texts tk0"
  show ?case
  proof (cases "i < length w")
    case False
    then show ?thesis by (simp add: encode_subwords.simps[of ?tk w i])
  next
    case True
    show ?thesis
    proof (cases "match_len ?tk w i")
      case None
      with True have "fst (encode_subwords ?tk w i)
                      = map_of (word2idx ?tk) UNK # fst (encode_subwords ?tk w (i + 1))"
        by (simp add: encode_subwords.simps[of ?tk w i])
      with less.prems show ?thesis by (simp add: fit_reserved_ids UNK_def)
    next
      case (Some len)
      let ?s = "take len (drop i w)"
      from Some have len: "2 \<le> len" by (rule match_len_ge2)
      from find_Some_mem[OF Some[unfolded match_len_def]] have "has (subwords ?tk) ?s"
        by simp
      then obtain j where j: "map_of (subwords ?tk) ?s = Some j" by (auto simp: has_def)
      from True Some j have toks: "fst (encode_subwords ?tk w i)
                      = Some j # fst (encode_subwords ?tk w (i + len))"
        by (simp add: encode_subwords.simps[of ?tk w i])
      with less.prems have rest: "Some 1 \<notin> set (fst (encode_subwords ?tk w (i + len)))" by simp
      from True len have "length w - (i + len) < length w - i" by simp
      note ih = less.hyps[OF this rest, of "cur @ ?s"]
      have eq: "?s @ drop (i + len) w = drop i w"
        by (metis append_take_drop_id drop_drop add.commute)
      have "decode_loop ?tk (fst (encode_subwords ?tk w i) @ rest) (res, cur)
            = decode_loop ?tk (fst (encode_subwords ?tk w (i + len)) @ rest) (res, cur @ ?s)"
        unfolding toks append_Cons by (rule decode_subword_id[OF j])
      also have "\<dots> = decode_loop ?tk rest (res, (cur @ ?s) @ drop (i + len) w)"
        by (rule ih)
      finally show ?thesis by (simp only: append_assoc eq)
    qed
  qed
qed


lemma encode_subwords_encoded:
  "snd (encode_subwords tk w i) \<Longrightarrow> i < length w"
  by (subst (asm) encode_subwords.simps) (simp split: if_splits)

lemma decode_subword_coded_word:
  assumes "\<not> whole_word (fit texts tk0) w" "unk_free (fit texts tk0) w"
  shows "decode_loop (fit texts tk0) (encode_word (fit texts tk0) w @ rest) (res, cur)
         = decode_loop (fit texts tk0) rest (res, cur @ w)"
    and "w \<noteq> []"
proof -
  let ?tk = "fit texts tk0"
  have unk: "map_of (word2idx ?tk) UNK = Some 1" by (simp add: fit_reserved_ids UNK_def)
  have "decode_loop ?tk (encode_word ?tk w @ rest) (res, cur) = decode_loop ?tk rest (res, cur @ w)
        \<and> w \<noteq> []"
  proof (cases "has (word2idx ?tk) w")
    case True
    with assms(1) have "has (subwords ?tk) w" by (simp add: whole_word_def)
    then obtain i where i: "map_of (subwords ?tk) w = Some i" by (auto simp: has_def)
    note e = fit_subword_entry[OF i]
    from True e(1) have "encode_word ?tk w = [Some i]" by (simp add: encode_word_def)
    moreover from e(2) have "w \<noteq> []" by auto
    ultimately show ?thesis using decode_subword_id[OF i, of rest res cur] by simp
  next
    case False
    obtain ids enc where r: "encode_subwords ?tk w 0 = (ids, enc)"
      by (cases "encode_subwords ?tk w 0")
    from False r assms(2) unk have enc: "enc" and ids: "encode_word ?tk w = ids" "Some 1 \<notin> set ids"
      by (auto simp: unk_free_def encode_word_def split: if_splits)
    from enc r have "0 < length w" using encode_subwords_encoded[of ?tk w 0] by simp
    moreover from ids(2) r have "Some 1 \<notin> set (fst (encode_subwords ?tk w 0))" by simp
    from decode_subword_tokens[OF this, of rest res cur] r ids(1)
    have "decode_loop ?tk (encode_word ?tk w @ rest) (res, cur) = decode_loop ?tk rest (res, cur @ w)"
      by simp
    ultimately show ?thesis by simp
  qed
  then show "decode_loop ?tk (encode_word ?tk w @ rest) (res, cur) = decode_loop ?tk rest (res, cur @ w)"
    and "w \<noteq> []" by simp_all
qed

lemma decode_whole_word:
  assumes "whole_word (fit texts tk0) w" "plain_word w"
  shows "decode_loop (fit texts tk0) (encode_word (fit texts tk0) w @ rest) (res, cur)
         = decode_loop (fit texts tk0) rest (flush (res, cur) @ [Some w], [])"
proof -
  from assms(1) have "encode_word (fit texts tk0) w = [map_of (word2idx (fit texts tk0)) w]"
    by (simp add: encode_word_def whole_word_def)
  then show ?thesis using decode_whole_word_id[OF assms, of rest res cur] by simp
qed

lemma decode_words:
  assumes "\<forall>w \<in> set ws. unk_free (fit texts tk0) w \<and> plain_word w"
    and "separated (fit texts tk0) ws"
    and "cur = [] \<or> ws = [] \<or> whole_word (fit texts tk0) (hd ws)"
  shows "\<exists>res' cur'.
           decode_loop (fit texts tk0) (concat (map (encode_word (fit texts tk0)) ws) @ rest) (res, cur)
             = decode_loop (fit texts tk0) rest (res', cur')
           \<and> flush (res', cur') = flush (res, cur) @ map Some ws"
  using assms
proof (induction ws arbitrary: res cur)
  case Nil
  show ?case by (intro exI[of _ res] exI[of _ cur]) simp
next
  case (Cons w ws)
  let ?tk = "fit texts tk0"
  from Cons.prems(1) have w: "unk_free ?tk w" "plain_word w"
    and rest: "\<forall>w \<in> set ws. unk_free ?tk w \<and> plain_word w" by simp_all
  from Cons.prems(2) have sep: "separated ?tk ws" by (cases ws) simp_all
  show ?case
  proof (cases "whole_word ?tk w")
    case True
    have step: "decode_loop ?tk (concat (map (encode_word ?tk) (w # ws)) @ rest) (res, cur)
          = decode_loop ?tk (concat (map (encode_word ?tk) ws) @ rest) (flush (res, cur) @ [Some w], [])"
      using decode_whole_word[OF True w(2), of "concat (map (encode_word ?tk) ws) @ rest" res cur]
      by simp
    from Cons.IH[OF rest sep, where cur = "[]" and res = "flush (res, cur) @ [Some w]"]
    obtain res' cur' where
      a: "decode_loop ?tk (concat (map (encode_word ?tk) ws) @ rest) (flush (res, cur) @ [Some w], [])
         = decode_loop ?tk rest (res', cur')"
      and b: "flush (res', cur') = flush (flush (res, cur) @ [Some w], []) @ map Some ws"
      by auto
    show ?thesis
    proof (intro exI[of _ res'] exI[of _ cur'] conjI)
      show "decode_loop ?tk (concat (map (encode_word ?tk) (w # ws)) @ rest) (res, cur)
            = decode_loop ?tk rest (res', cur')"
        by (simp only: step a)
      show "flush (res', cur') = flush (res, cur) @ map Some (w # ws)"
        unfolding b by (simp add: flush_def)
    qed
  next
    case False
    with Cons.prems(3) have cur: "cur = []" by simp
    note d = decode_subword_coded_word(1)[OF False w(1), of "concat (map (encode_word ?tk) ws) @ rest" res cur]
      decode_subword_coded_word(2)[OF False w(1)]
    have step: "decode_loop ?tk (concat (map (encode_word ?tk) (w # ws)) @ rest) (res, cur)
          = decode_loop ?tk (concat (map (encode_word ?tk) ws) @ rest) (res, w)"
      using d(1) cur by simp
    have nxt: "w = [] \<or> ws = [] \<or> whole_word ?tk (hd ws)"
      using Cons.prems(2) False by (cases ws) simp_all
    from Cons.IH[OF rest sep nxt, where res = res]
    obtain res' cur' where
      a: "decode_loop ?tk (concat (map (encode_word ?tk) ws) @ rest) (res, w)
         = decode_loop ?tk rest (res', cur')"
      and b: "flush (res', cur') = flush (res, w) @ map Some ws"
      by auto
    show ?thesis
    proof (intro exI[of _ res'] exI[of _ cur'] conjI)
      show "decode_loop ?tk (concat (map (encode_word ?tk) (w # ws)) @ rest) (res, cur)
            = decode_loop ?tk rest (res', cur')"
        by (simp only: step a)
      show "flush (res', cur') = flush (res, cur) @ map Some (w # ws)"
        unfolding b using d(2) cur by (simp add: flush_def)
    qed
  qed
qed

lemma encode_subwords_nonempty:
  assumes "snd (encode_subwords tk w i)"
  shows "fst (encode_subwords tk w i) \<noteq> []"
proof (cases "i < length w")
  case True
  then show ?thesis by (simp add: encode_subwords.simps[of tk w i] split: option.splits)
next
  case False
  with assms show ?thesis by (simp add: encode_subwords.simps[of tk w i])
qed

lemma encode_word_nonempty: "encode_word tk w \<noteq> []"
  using encode_subwords_nonempty[of tk w 0]
  by (cases "encode_subwords tk w 0") (auto simp: encode_word_def)

lemma encode_words_complete:
  assumes "length ws \<le> 1
           \<or> length result + length (concat (map (encode_word tk) (butlast ws))) < maxLength - 1"
  shows "encode_words tk maxLength result ws = result @ concat (map (encode_word tk) ws)"
  using assms
proof (induction ws arbitrary: result)
  case Nil
  then show ?case by simp
next
  case (Cons w ws)
  show ?case
  proof (cases ws)
    case Nil
    then show ?thesis by (simp add: Let_def)
  next
    case (Cons w2 ws2)
    with Cons.prems
    have lt: "length result + length (encode_word tk w)
                + length (concat (map (encode_word tk) (butlast ws))) < maxLength - 1"
      by simp
    then have nobreak: "\<not> maxLength - 1 \<le> length (result @ encode_word tk w)" by simp
    from lt have "length ws \<le> 1
        \<or> length (result @ encode_word tk w)
            + length (concat (map (encode_word tk) (butlast ws))) < maxLength - 1"
      by simp
    from Cons.IH[OF this] nobreak show ?thesis by (simp add: Let_def)
  qed
qed

lemma decode_flush: "decode tk ids = join '' '' (flush (decode_loop tk ids ([], [])))"
  by (simp add: decode_def flush_def split: prod.splits)

text \<open>
  C2, as the claim states it, fails with \<open>maxLength\<close> at least 4.  For text whose
  words are all in the vocabulary: of \<open>a b c\<close> the third word is cut off, and the
  neighbouring words \<open>hi\<close> and \<open>yo\<close>, which are in the vocabulary as sub-words,
  come back as the one word \<open>hiyo\<close>.  For a word outside the vocabulary that no
  sub-word matches: \<open>zz\<close> comes back as three question marks.
\<close>

theorem roundtrip_loses_information:
  "list_all (has (word2idx tk_abc)) (split_ws (toLowerCase ''a b c''))
   \<and> decode tk_abc (encode tk_abc ''a b c'' 4) = ''a b''
   \<and> list_all (has (word2idx tk_hiyo)) (split_ws (toLowerCase ''hi yo''))
   \<and> decode tk_hiyo (encode tk_hiyo ''hi yo'' 4) = ''hiyo''
   \<and> decode tk_hiyo (encode tk_hiyo ''zz'' 6) = ''? ? ?''"
  by code_simp

text \<open>
  C2, amended.  For a tokenizer that \<open>fit\<close> has built, a text and a \<open>maxLength\<close>
  such that no lower-case word of the text is encoded with an UNKNOWN id (each word is
  in the vocabulary or is covered by the greedily matched sub-words), of any two
  neighbouring words at least one is a whole-word entry of the vocabulary, and
  \<open>encode\<close> does not leave its loop before the last word: decoding the encoding gives
  the lower-case words joined by single blanks, so only the casing and the white space
  between the words are lost.
\<close>

theorem decode_encode_roundtrip:
  assumes "list_all (unk_free (fit texts tk0)) (split_ws (toLowerCase text))"
    and "separated (fit texts tk0) (split_ws (toLowerCase text))"
    and "not_truncated (fit texts tk0) (split_ws (toLowerCase text)) maxLength"
  shows "decode (fit texts tk0) (encode (fit texts tk0) text maxLength)
         = join '' '' (map Some (split_ws (toLowerCase text)))"
proof -
  let ?tk = "fit texts tk0"
  let ?ws = "split_ws (toLowerCase text)"
  let ?ids = "concat (map (encode_word ?tk) ?ws)"
  let ?rest = "Some 3 # replicate (maxLength - length (Some 2 # ?ids @ [Some 3])) (Some 0)"
  from assms(3) have "length ?ws \<le> 1
      \<or> length [map_of (word2idx ?tk) START]
          + length (concat (map (encode_word ?tk) (butlast ?ws))) < maxLength - 1"
    by (auto simp: not_truncated_def)
  from encode_words_complete[OF this]
  have enc: "encode ?tk text maxLength = Some 2 # ?ids @ ?rest"
    by (simp add: encode_def Let_def fit_reserved_ids PAD_def START_def END_def)
  have words: "\<forall>w \<in> set ?ws. unk_free ?tk w \<and> plain_word w"
    using assms(1) lower_word_not_reserved by (auto simp: list_all_iff plain_word_def)
  from decode_words[OF words assms(2), of "[]" ?rest "[]"]
  obtain res' cur' where d: "decode_loop ?tk (?ids @ ?rest) ([], []) = decode_loop ?tk ?rest (res', cur')"
    and f: "flush (res', cur') = flush ([], []) @ map Some ?ws"
    by auto
  have "decode_loop ?tk (encode ?tk text maxLength) ([], []) = decode_loop ?tk (?ids @ ?rest) ([], [])"
    unfolding enc by (simp add: fit_reserved_ids PAD_def START_def END_def)
  also have "\<dots> = decode_loop ?tk ?rest (res', cur')" by (rule d)
  also have "\<dots> = (res', cur')"
    by (simp add: fit_reserved_ids PAD_def START_def END_def)
  finally show ?thesis using f by (simp add: decode_flush flush_def)
qed

lemma roundtrip_demo:
  "list_all (unk_free (fit [''hello hi there''] new_tokenizer)) (split_ws (toLowerCase ''Hello  hi there''))"
  "separated (fit [''hello hi there''] new_tokenizer) (split_ws (toLowerCase ''Hello  hi there''))"
  "not_truncated (fit [''hello hi there''] new_tokenizer) (split_ws (toLowerCase ''Hello  hi there'')) 5"
  "join '' '' (map Some (split_ws (toLowerCase ''Hello  hi there''))) = ''hello hi there''"
  "list_all (unk_free (fit [''hi yo''] new_tokenizer)) (split_ws (toLowerCase ''HiYo''))"
  "separated (fit [''hi yo''] new_tokenizer) (split_ws (toLowerCase ''HiYo''))"
  "not_truncated (fit [''hi yo''] new_tokenizer) (split_ws (toLowerCase ''HiYo'')) 4"
  "join '' '' (map Some (split_ws (toLowerCase ''HiYo''))) = ''hiyo''"
  by code_simp+

text \<open>
  Two instances: a sub-word word between two whole words, and a word outside the
  vocabulary that two sub-words cover.
\<close>

theorem decode_encode_roundtrip_witness:
  "list_all (unk_free (fit [''hello hi there''] new_tokenizer)) (split_ws (toLowerCase ''Hello  hi there''))
   \<and> separated (fit [''hello hi there''] new_tokenizer) (split_ws (toLowerCase ''Hello  hi there''))
   \<and> not_truncated (fit [''hello hi there''] new_tokenizer) (split_ws (toLowerCase ''Hello  hi there'')) 5
   \<and> decode (fit [''hello hi there''] new_tokenizer)
        (encode (fit [''hello hi there''] new_tokenizer) ''Hello  hi there'' 5) = ''hello hi there''
   \<and> list_all (unk_free (fit [''hi yo''] new_tokenizer)) (split_ws (toLowerCase ''HiYo''))
   \<and> separated (fit [''hi yo''] new_tokenizer) (split_ws (toLowerCase ''HiYo''))
   \<and> not_truncated (fit [''hi yo''] new_tokenizer) (split_ws (toLowerCase ''HiYo'')) 4
   \<and> decode (fit [''hi yo''] new_tokenizer) (encode (fit [''hi yo''] new_tokenizer) ''HiYo'' 4)
       = ''hiyo''"
  using decode_encode_roundtrip[of "[''hello hi there'']" new_tokenizer "''Hello  hi there''" 5]
        decode_encode_roundtrip[of "[''hi yo'']" new_tokenizer "''HiYo''" 4]
  by (simp only: roundtrip_demo)

section \<open>The never-fitted tokenizer\<close>

lemma match_len_new [simp]: "match_len new_tokenizer word i = None"
  by (simp add: match_len_def has_def find_None_iff)

lemma encode_subwords_new:
  "set (fst (encode_subwords new_tokenizer word i)) \<subseteq> {None}"
proof (induction "length word - i" arbitrary: i)
  case 0
  then show ?case by (simp add: encode_subwords.simps)
next
  case (Suc k)
  then have "k = length word - (i + 1)" by simp
  from Suc.hyps(1)[OF this] show ?case
    by (subst encode_subwords.simps) auto
qed

lemma encode_word_new: "set (encode_word new_tokenizer word) \<subseteq> {None}"
  using encode_subwords_new[of word 0]
  by (cases "encode_subwords new_tokenizer word 0") (auto simp: encode_word_def has_def)

lemma encode_words_new:
  "set result \<subseteq> {None} \<Longrightarrow> set (encode_words new_tokenizer maxLength result ws) \<subseteq> {None}"
proof (induction ws arbitrary: result)
  case Nil
  then show ?case by simp
next
  case (Cons w ws)
  have "set (result @ encode_word new_tokenizer w) \<subseteq> {None}"
    using Cons.prems encode_word_new[of w] by auto
  from Cons.IH[OF this] this show ?case by (simp add: Let_def)
qed

lemma encode_new_all_undefined: "set (encode new_tokenizer text maxLength) \<subseteq> {None}"
  using encode_words_new[of "[None]" maxLength "split_ws (toLowerCase text)"]
  by (auto simp: encode_def Let_def)

lemma decode_loop_new:
  "decode_loop new_tokenizer (map Some ids) (res, []) = (res @ replicate (length ids) None, [])"
proof (induction ids arbitrary: res)
  case Nil
  then show ?case by simp
next
  case (Cons i ids)
  show ?case
    by (simp add: Let_def Cons.IH replicate_app_Cons_same)
qed

lemma join_undefined: "join sep (replicate n None) = concat (replicate (n - 1) sep)"
proof (induction n)
  case 0
  then show ?case by simp
next
  case (Suc n)
  then show ?case by (cases n) simp_all
qed

lemma decode_new:
  "decode new_tokenizer (map Some ids) = concat (replicate (length ids - 1) '' '')"
  by (simp add: decode_def decode_loop_new join_undefined)

text \<open>
  C3, as the claim states it, fails: on the tokenizer that was never fitted \<open>encode\<close>
  returns a sequence of \<open>undefined\<close> entries and \<open>decode\<close> returns a string of blanks;
  neither fails.
\<close>

theorem unfitted_returns_garbage:
  "encode new_tokenizer ''hello'' 4 = [None, None, None, None, None, None, None, None]
   \<and> decode new_tokenizer [Some 5, Some 6, Some 7] = ''  ''"
  by code_simp

text \<open>
  C3, amended.  On a never-fitted tokenizer \<open>encode\<close> and \<open>decode\<close> do not fail:
  \<open>encode\<close> returns at least \<open>maxLength\<close> entries, every one \<open>undefined\<close>, and
  \<open>decode\<close> of \<open>n\<close> numeric ids returns \<open>n - 1\<close> blanks (each id decodes to the
  \<open>undefined\<close> token, which \<open>join\<close> renders as the empty string).
\<close>

theorem unfitted_encode_decode_do_not_fail:
  "set (encode new_tokenizer text maxLength) \<subseteq> {None}
   \<and> maxLength \<le> length (encode new_tokenizer text maxLength)
   \<and> decode new_tokenizer (map Some ids) = concat (replicate (length ids - 1) '' '')"
  using encode_new_all_undefined encode_length_ge decode_new by blast

section \<open>generateResponse: the fallback paths\<close>

lemma fallback_replies_nonempty:
  "greeting_reply \<noteq> []" "farewell_reply \<noteq> []" "about_reply \<noteq> []" "learning_reply \<noteq> []"
  by (simp_all add: greeting_reply_def farewell_reply_def about_reply_def learning_reply_def)

lemma length_defaultResponses [simp]: "length defaultResponses = 5"
  by (simp add: defaultResponses_def)

lemma defaultResponses_nonempty: "k < 5 \<Longrightarrow> defaultResponses ! k \<noteq> []"
proof -
  assume "k < 5"
  then have "k = 0 \<or> k = 1 \<or> k = 2 \<or> k = 3 \<or> k = 4" by arith
  then show ?thesis by (auto simp: defaultResponses_def)
qed

lemma default_index_in_range:
  fixes r :: real
  assumes "0 \<le> r" "r < 1"
  shows "0 \<le> \<lfloor>r * 5\<rfloor> \<and> \<lfloor>r * 5\<rfloor> < 5"
proof -
  have "0 \<le> r * 5" using assms by simp
  moreover have "r * 5 < 5" using assms by simp
  ultimately show ?thesis by (simp add: floor_less_iff)
qed

lemma fallback_nonempty:
  assumes "0 \<le> r" "r < 1"
  shows "\<exists>s. generateFallbackResponse userInput r = Some s \<and> s \<noteq> []"
proof -
  from default_index_in_range[OF assms] have k: "0 \<le> \<lfloor>r * 5\<rfloor>" "\<lfloor>r * 5\<rfloor> < 5" by auto
  then have "nat \<lfloor>r * 5\<rfloor> < 5" by linarith
  from defaultResponses_nonempty[OF this] k show ?thesis
    by (simp add: generateFallbackResponse_def Let_def fallback_replies_nonempty)
qed

lemma initializing_reply_nonempty: "initializing_reply \<noteq> []"
  by (simp add: initializing_reply_def)

text \<open>
  C10.  With a draw in [0, 1), \<open>generateResponse\<close> returns a non-empty string in
  every state; in particular, past the undertrained guard, when the beam search
  completes and the best beam decodes to the empty string, the response is the fallback
  response.
\<close>

theorem generateResponse_never_empty:
  assumes "0 \<le> r" "r < 1"
  shows "(\<exists>s. fst (generateResponse env r now userInput st) = Some s \<and> s \<noteq> [])
         \<and> (initialized st \<and> model st = Some m \<and> 100 \<le> totalExamples (trainingMetrics st)
              \<and> tokenizer st = Some tk
              \<and> tensor2d_ok env (encode tk userInput (maxSequenceLength (parameters st)))
              \<and> beam_search env m tk (temperature (parameters st))
                    (encode tk userInput (maxSequenceLength (parameters st)))
                    (maxSequenceLength (parameters st)) = Some (bestBeam # beams)
              \<and> decode tk (sequence bestBeam) = []
            \<longrightarrow> fst (generateResponse env r now userInput st) = generateFallbackResponse userInput r)"
proof
  from fallback_nonempty[OF assms] obtain s where s: "generateFallbackResponse userInput r = Some s" "s \<noteq> []"
    by blast
  show "\<exists>s. fst (generateResponse env r now userInput st) = Some s \<and> s \<noteq> []"
    using s initializing_reply_nonempty
    by (auto simp: generateResponse_def Let_def split: option.splits list.splits)
next
  show "initialized st \<and> model st = Some m \<and> 100 \<le> totalExamples (trainingMetrics st)
              \<and> tokenizer st = Some tk
              \<and> tensor2d_ok env (encode tk userInput (maxSequenceLength (parameters st)))
              \<and> beam_search env m tk (temperature (parameters st))
                    (encode tk userInput (maxSequenceLength (parameters st)))
                    (maxSequenceLength (parameters st)) = Some (bestBeam # beams)
              \<and> decode tk (sequence bestBeam) = []
            \<longrightarrow> fst (generateResponse env r now userInput st) = generateFallbackResponse userInput r"
    by (simp add: generateResponse_def Let_def)
qed

lemma st_demo_sel [simp]:
  "initialized (st_demo m n)" "model (st_demo m n) = Some m"
  "tokenizer (st_demo m n) = Some tk_hiyo"
  "totalExamples (trainingMetrics (st_demo m n)) = n"
  "maxSequenceLength (parameters (st_demo m n)) = 4"
  "temperature (parameters (st_demo m n)) = 0.7"
  by (simp_all add: st_demo_def default_parameters_def)

lemma beam_search_env_end:
  "beam_search env_end 0 tk_hiyo 0.7 (encode tk_hiyo ''xyz'' 4) 4
     = Some [\<lparr>sequence = [Some 2, Some 3], score = 0\<rparr>,
             \<lparr>sequence = [Some 2, Some 3], score = - 1\<rparr>,
             \<lparr>sequence = [Some 2, Some 3], score = - 2\<rparr>]"
  by code_simp

lemma decode_start_end: "decode tk_hiyo [Some 2, Some 3] = []"
  by code_simp

lemma tensor2d_ok_env_end: "tensor2d_ok env_end row"
  by (simp add: env_end_def)

lemma fallback_xyz: "generateFallbackResponse ''xyz'' 0 = Some (defaultResponses ! 0)"
  by code_simp

text \<open>
  An instance: 100 examples trained on, and a model whose best beam is START, END, which
  decodes to the empty string.
\<close>

theorem generateResponse_never_empty_witness:
  "(0::real) \<le> 0 \<and> (0::real) < 1
   \<and> fst (generateResponse env_end 0 [] ''xyz'' (st_demo 0 100)) = Some (defaultResponses ! 0)
   \<and> defaultResponses ! 0 \<noteq> []"
  using generateResponse_never_empty[of 0 env_end "[]" "''xyz''" "st_demo 0 100" 0 tk_hiyo
      "\<lparr>sequence = [Some 2, Some 3], score = 0\<rparr>"
      "[\<lparr>sequence = [Some 2, Some 3], score = - 1\<rparr>, \<lparr>sequence = [Some 2, Some 3], score = - 2\<rparr>]"]
  by (auto simp: beam_search_env_end decode_start_end fallback_xyz tensor2d_ok_env_end)

text \<open>
  C8, as the claim states it, fails before initialization: on the instance the
  constructor leaves, which has trained on 0 examples, \<open>generateResponse\<close> answers
  with the fixed initializing message, not with the keyword-matched fallback response.
\<close>

theorem uninitialized_not_fallback:
  "totalExamples (trainingMetrics (new_nlm :: (nat, unit) nlm)) < 100
   \<and> fst (generateResponse env_demo 0 [] ''hello'' (new_nlm :: (nat, unit) nlm)) = Some initializing_reply
   \<and> generateFallbackResponse ''hello'' 0 = Some greeting_reply
   \<and> initializing_reply \<noteq> greeting_reply"
  by code_simp

text \<open>
  C8, amended.  On an initialized instance that has a model and has trained on fewer
  than 100 examples, \<open>generateResponse\<close> returns the response of
  \<open>generateFallbackResponse\<close> and leaves the state as it is, whatever the model and
  the TensorFlow.js side are.  That response is chosen by the first matching keyword
  category (greeting, farewell, self-description, learning) and is otherwise one of the
  five generic replies, picked by the random draw.  On an instance that is not
  initialized or has no model, \<open>generateResponse\<close> returns the fixed initializing
  message and leaves the state as it is.
\<close>

theorem undertrained_fallback:
  assumes "initialized st" "model st \<noteq> None" "totalExamples (trainingMetrics st) < 100"
  shows "generateResponse env r now userInput st = (generateFallbackResponse userInput r, st)
    \<and> (match_any (toLowerCase userInput) greeting_words
          \<longrightarrow> generateFallbackResponse userInput r = Some greeting_reply)
    \<and> (\<not> match_any (toLowerCase userInput) greeting_words
          \<and> match_any (toLowerCase userInput) farewell_words
          \<longrightarrow> generateFallbackResponse userInput r = Some farewell_reply)
    \<and> (\<not> match_any (toLowerCase userInput) greeting_words
          \<and> \<not> match_any (toLowerCase userInput) farewell_words
          \<and> match_any (toLowerCase userInput) about_words
          \<longrightarrow> generateFallbackResponse userInput r = Some about_reply)
    \<and> (\<not> match_any (toLowerCase userInput) greeting_words
          \<and> \<not> match_any (toLowerCase userInput) farewell_words
          \<and> \<not> match_any (toLowerCase userInput) about_words
          \<and> match_any (toLowerCase userInput) learning_words
          \<longrightarrow> generateFallbackResponse userInput r = Some learning_reply)
    \<and> (\<not> match_any (toLowerCase userInput) greeting_words
          \<and> \<not> match_any (toLowerCase userInput) farewell_words
          \<and> \<not> match_any (toLowerCase userInput) about_words
          \<and> \<not> match_any (toLowerCase userInput) learning_words
          \<and> 0 \<le> r \<and> r < 1
          \<longrightarrow> generateFallbackResponse userInput r \<in> Some ` set defaultResponses)
    \<and> (\<not> initialized st0 \<or> model st0 = None
          \<longrightarrow> generateResponse env r now userInput st0 = (Some initializing_reply, st0))"
proof (intro conjI impI)
  show "generateResponse env r now userInput st = (generateFallbackResponse userInput r, st)"
    using assms by (auto simp: generateResponse_def)
next
  assume a: "\<not> match_any (toLowerCase userInput) greeting_words
          \<and> \<not> match_any (toLowerCase userInput) farewell_words
          \<and> \<not> match_any (toLowerCase userInput) about_words
          \<and> \<not> match_any (toLowerCase userInput) learning_words
          \<and> 0 \<le> r \<and> r < 1"
  then have k: "0 \<le> \<lfloor>r * 5\<rfloor>" "\<lfloor>r * 5\<rfloor> < 5" using default_index_in_range[of r] by auto
  then have "nat \<lfloor>r * 5\<rfloor> < length defaultResponses" by simp linarith
  then have "defaultResponses ! nat \<lfloor>r * 5\<rfloor> \<in> set defaultResponses" by (rule nth_mem)
  with a k show "generateFallbackResponse userInput r \<in> Some ` set defaultResponses"
    by (simp add: generateFallbackResponse_def Let_def)
next
  assume "\<not> initialized st0 \<or> model st0 = None"
  then show "generateResponse env r now userInput st0 = (Some initializing_reply, st0)"
    by (auto simp: generateResponse_def)
qed (simp_all add: generateFallbackResponse_def Let_def)

lemma fallback_examples:
  "generateFallbackResponse ''Hello there'' 0 = Some greeting_reply"
  "generateFallbackResponse ''Bye'' 0 = Some farewell_reply"
  "generateFallbackResponse ''Who are you?'' 0 = Some about_reply"
  "generateFallbackResponse ''Teach me'' 0 = Some learning_reply"
  "generateFallbackResponse ''xyz'' (1/2) = Some (defaultResponses ! 2)"
  by code_simp+

lemma new_nlm_sel: "\<not> initialized new_nlm" "model new_nlm = None"
  by (simp_all add: new_nlm_def)

text \<open>
  An instance with 99 examples trained on, and one input for each category; and the
  instance the constructor leaves.
\<close>

theorem undertrained_fallback_witness:
  "initialized (st_demo 0 99) \<and> model (st_demo 0 99) \<noteq> None
   \<and> totalExamples (trainingMetrics (st_demo 0 99)) < 100
   \<and> generateResponse env_demo 0 [] ''Hello there'' (st_demo 0 99) = (Some greeting_reply, st_demo 0 99)
   \<and> generateResponse env_demo 0 [] ''Bye'' (st_demo 0 99) = (Some farewell_reply, st_demo 0 99)
   \<and> generateResponse env_demo 0 [] ''Who are you?'' (st_demo 0 99) = (Some about_reply, st_demo 0 99)
   \<and> generateResponse env_demo 0 [] ''Teach me'' (st_demo 0 99) = (Some learning_reply, st_demo 0 99)
   \<and> generateResponse env_demo (1/2) [] ''xyz'' (st_demo 0 99) = (Some (defaultResponses ! 2), st_demo 0 99)
   \<and> generateResponse env_demo 0 [] ''Hello there'' (new_nlm :: (nat, unit) nlm)
       = (Some initializing_reply, new_nlm)"
  using undertrained_fallback[of "st_demo 0 99" env_demo 0 "[]" "''Hello there''" "new_nlm :: (nat, unit) nlm"]
        undertrained_fallback[of "st_demo 0 99" env_demo 0 "[]" "''Bye''" "st_demo 0 99"]
        undertrained_fallback[of "st_demo 0 99" env_demo 0 "[]" "''Who are you?''" "st_demo 0 99"]
        undertrained_fallback[of "st_demo 0 99" env_demo 0 "[]" "''Teach me''" "st_demo 0 99"]
        undertrained_fallback[of "st_demo 0 99" env_demo "1/2" "[]" "''xyz''" "st_demo 0 99"]
  by (simp add: fallback_examples new_nlm_sel)


section \<open>Beam search: termination and the length bound\<close>

lemma set_insert_beam: "set (insert_beam env x ys) = insert x (set ys)"
  by (induction ys) auto

lemma set_sort_beams: "set (sort_beams env cs) = set cs"
  unfolding sort_beams_def by (induction cs) (simp_all add: set_insert_beam)

lemma expand_beam_length:
  assumes "expand_beam env m tk temp enc maxLength i b = Some cs" "c \<in> set cs"
  shows "length (sequence c) = length (sequence b) + 1"
  using assms by (auto simp: expand_beam_def Let_def split: option.splits)

lemma beam_candidates_length:
  assumes "beam_candidates env m tk temp enc maxLength i beams = Some cs"
    and "\<forall>b \<in> set beams. length (sequence b) \<le> n"
    and "c \<in> set cs"
  shows "length (sequence c) \<le> n + 1"
  using assms
proof (induction beams arbitrary: cs)
  case Nil
  then show ?case by simp
next
  case (Cons b bs)
  show ?case
  proof (cases "beam_ended tk b")
    case True
    with Cons.prems(1) obtain r where r: "beam_candidates env m tk temp enc maxLength i bs = Some r" "cs = b # r"
      by auto
    with Cons.prems(2,3) Cons.IH[OF r(1)] show ?thesis by auto
  next
    case False
    with Cons.prems(1) obtain es r where er: "expand_beam env m tk temp enc maxLength i b = Some es"
      "beam_candidates env m tk temp enc maxLength i bs = Some r" "cs = es @ r"
      by (auto split: option.splits)
    show ?thesis
    proof (cases "c \<in> set es")
      case True
      from expand_beam_length[OF er(1) True] Cons.prems(2) show ?thesis by simp
    next
      case False
      with Cons.prems(3) er(3) have "c \<in> set r" by simp
      with Cons.prems(2) Cons.IH[OF er(2)] show ?thesis by simp
    qed
  qed
qed

lemma beam_step_length:
  assumes "beam_step env m tk temp enc maxLength i beams = Some beams'"
    and "\<forall>b \<in> set beams. length (sequence b) \<le> n"
    and "c \<in> set beams'"
  shows "length (sequence c) \<le> n + 1"
proof -
  from assms(1) obtain cs where cs: "beam_candidates env m tk temp enc maxLength i beams = Some cs"
    "beams' = take beamWidth (sort_beams env cs)"
    by (auto simp: beam_step_def)
  from assms(3) cs(2) have "c \<in> set cs"
    using set_sort_beams[of env cs] by (auto dest: in_set_takeD)
  from beam_candidates_length[OF cs(1) assms(2) this] show ?thesis .
qed

lemma beam_loop_length:
  assumes "beam_loop env m tk temp enc maxLength i beams = Some res"
    and "\<forall>b \<in> set beams. length (sequence b) \<le> i + 1"
    and "i \<le> maxLength - 1" and "1 \<le> maxLength"
    and "c \<in> set res"
  shows "length (sequence c) \<le> maxLength"
  using assms
proof (induction env m tk temp enc maxLength i beams rule: beam_loop.induct)
  case (1 env m tk temp enc maxLength i beams)
  show ?case
  proof (cases "i < maxLength - 1")
    case False
    with "1.prems" have "res = beams" "i = maxLength - 1"
      by (auto simp: beam_loop.simps[of env m tk temp enc maxLength i beams])
    with "1.prems" show ?thesis by fastforce
  next
    case True
    with "1.prems"(1) obtain beams' where st: "beam_step env m tk temp enc maxLength i beams = Some beams'"
      by (auto simp: beam_loop.simps[of env m tk temp enc maxLength i beams] split: option.splits)
    have len': "\<forall>b \<in> set beams'. length (sequence b) \<le> (i + 1) + 1"
      using beam_step_length[OF st "1.prems"(2)] by blast
    show ?thesis
    proof (cases "list_all (beam_ended tk) beams'")
      case ended: True
      with True st "1.prems"(1) have "res = beams'"
        by (simp add: beam_loop.simps[of env m tk temp enc maxLength i beams])
      with len' "1.prems"(5) True show ?thesis by fastforce
    next
      case notended: False
      with True st "1.prems"(1) have rec: "beam_loop env m tk temp enc maxLength (i + 1) beams' = Some res"
        by (simp add: beam_loop.simps[of env m tk temp enc maxLength i beams])
      from True have "i + 1 \<le> maxLength - 1" by simp
      from "1.IH"[OF True st notended rec len' this "1.prems"(4) "1.prems"(5)] show ?thesis .
    qed
  qed
qed

lemma length_insert_beam: "length (insert_beam env x ys) = length ys + 1"
  by (induction ys) auto

lemma length_sort_beams: "length (sort_beams env cs) = length cs"
  unfolding sort_beams_def by (induction cs) (simp_all add: length_insert_beam)

lemma expand_beam_total:
  assumes "\<And>enc dec i vs t. topk_predict env m enc dec i vs t \<noteq> None"
  shows "\<exists>es. expand_beam env m tk temp enc maxLength i b = Some es \<and> es \<noteq> []"
proof -
  let ?dec = "sequence b @ replicate (maxLength - length (sequence b)) (map_of (word2idx tk) PAD)"
  from assms[of enc ?dec i "vocabSize tk" temp]
  obtain topk where "topk_predict env m enc ?dec i (vocabSize tk) temp = Some topk" by blast
  then show ?thesis by (simp add: expand_beam_def beamWidth_def)
qed

lemma beam_candidates_total:
  assumes "\<And>enc dec i vs t. topk_predict env m enc dec i vs t \<noteq> None"
  shows "\<exists>cs. beam_candidates env m tk temp enc maxLength i beams = Some cs
              \<and> (beams \<noteq> [] \<longrightarrow> cs \<noteq> [])"
proof (induction beams)
  case Nil
  then show ?case by simp
next
  case (Cons b bs)
  then obtain r where r: "beam_candidates env m tk temp enc maxLength i bs = Some r" by blast
  obtain es where es: "expand_beam env m tk temp enc maxLength i b = Some es" "es \<noteq> []"
    using expand_beam_total[OF assms] by blast
  show ?case using r es by simp
qed

lemma beam_step_total:
  assumes "\<And>enc dec i vs t. topk_predict env m enc dec i vs t \<noteq> None"
  shows "\<exists>beams'. beam_step env m tk temp enc maxLength i beams = Some beams'
              \<and> (beams \<noteq> [] \<longrightarrow> beams' \<noteq> [])"
proof -
  from beam_candidates_total[OF assms, of tk temp enc maxLength i beams]
  obtain cs where cs: "beam_candidates env m tk temp enc maxLength i beams = Some cs"
    "beams \<noteq> [] \<longrightarrow> cs \<noteq> []" by blast
  have "cs \<noteq> [] \<longrightarrow> take beamWidth (sort_beams env cs) \<noteq> []"
    using length_sort_beams[of env cs] by (auto simp: beamWidth_def)
  with cs show ?thesis by (simp add: beam_step_def)
qed

lemma beam_loop_total:
  assumes "\<And>enc dec i vs t. topk_predict env m enc dec i vs t \<noteq> None" and "beams \<noteq> []"
  shows "\<exists>res. beam_loop env m tk temp enc maxLength i beams = Some res \<and> res \<noteq> []"
  using assms
proof (induction env m tk temp enc maxLength i beams rule: beam_loop.induct)
  case (1 env m tk temp enc maxLength i beams)
  show ?case
  proof (cases "i < maxLength - 1")
    case False
    with "1.prems"(2) show ?thesis
      by (simp add: beam_loop.simps[of env m tk temp enc maxLength i beams])
  next
    case True
    from beam_step_total[OF "1.prems"(1), of tk temp enc maxLength i beams] "1.prems"(2)
    obtain beams' where st: "beam_step env m tk temp enc maxLength i beams = Some beams'"
      "beams' \<noteq> []" by blast
    show ?thesis
    proof (cases "list_all (beam_ended tk) beams'")
      case ended: True
      with True st show ?thesis
        by (simp add: beam_loop.simps[of env m tk temp enc maxLength i beams])
    next
      case notended: False
      from "1.IH"[OF True st(1) notended "1.prems"(1) st(2)] True st notended show ?thesis
        by (simp add: beam_loop.simps[of env m tk temp enc maxLength i beams])
    qed
  qed
qed

text \<open>
  C4.  The beam search is a total function: its loop runs at most
  \<open>maxSequenceLength - 1\<close> times (the termination proof of \<open>beam_loop\<close>), and it
  either reports that a TensorFlow.js call threw (\<open>None\<close>, which \<open>generateResponse\<close>
  turns into the fallback response) or returns its beams; when no call throws it returns
  a non-empty list of beams.  With \<open>maxSequenceLength\<close> at least 1 (the first beam
  already holds START), no returned beam is longer than \<open>maxSequenceLength\<close>.  The
  loop stops in the iteration after which every beam ends with END.
\<close>

theorem beam_search_bounded:
  assumes "1 \<le> maxLength"
  shows "(\<forall>beams. beam_search env m tk temp enc maxLength = Some beams
            \<longrightarrow> (\<forall>b \<in> set beams. length (sequence b) \<le> maxLength))
       \<and> ((\<forall>e d i vs t. topk_predict env m e d i vs t \<noteq> None)
            \<longrightarrow> (\<exists>beams. beam_search env m tk temp enc maxLength = Some beams \<and> beams \<noteq> []))
       \<and> (\<forall>i beams beams'. i < maxLength - 1
            \<and> beam_step env m tk temp enc maxLength i beams = Some beams'
            \<and> list_all (beam_ended tk) beams'
            \<longrightarrow> beam_loop env m tk temp enc maxLength i beams = Some beams')"
proof (intro conjI allI impI ballI)
  fix beams b
  assume "beam_search env m tk temp enc maxLength = Some beams" "b \<in> set beams"
  then show "length (sequence b) \<le> maxLength"
    using beam_loop_length[of env m tk temp enc maxLength 0 _ beams b] assms
    by (simp add: beam_search_def)
next
  assume "\<forall>e d i vs t. topk_predict env m e d i vs t \<noteq> None"
  then show "\<exists>beams. beam_search env m tk temp enc maxLength = Some beams \<and> beams \<noteq> []"
    unfolding beam_search_def by (intro beam_loop_total) simp_all
next
  fix i beams beams'
  assume "i < maxLength - 1
            \<and> beam_step env m tk temp enc maxLength i beams = Some beams'
            \<and> list_all (beam_ended tk) beams'"
  then show "beam_loop env m tk temp enc maxLength i beams = Some beams'"
    by (simp add: beam_loop.simps[of env m tk temp enc maxLength i beams])
qed

lemma beam_search_env_demo:
  "beam_search env_demo 0 tk_hiyo (7/10) (encode tk_hiyo ''x'' 4) 4
     = Some [\<lparr>sequence = [Some 2, Some 4, Some 3], score = 0\<rparr>,
             \<lparr>sequence = [Some 2, Some 4, Some 3], score = - 1\<rparr>,
             \<lparr>sequence = [Some 2, Some 3], score = - 1\<rparr>]"
  by code_simp

lemma topk_predict_env_demo: "topk_predict env_demo m e d i vs t \<noteq> None"
  by (simp add: env_demo_def)

text \<open>An instance with sequences of length 4.\<close>

theorem beam_search_bounded_witness:
  "(1::nat) \<le> 4
   \<and> beam_search env_demo 0 tk_hiyo (7/10) (encode tk_hiyo ''x'' 4) 4
       = Some [\<lparr>sequence = [Some 2, Some 4, Some 3], score = 0\<rparr>,
               \<lparr>sequence = [Some 2, Some 4, Some 3], score = - 1\<rparr>,
               \<lparr>sequence = [Some 2, Some 3], score = - 1\<rparr>]
   \<and> length [Some (2::nat), Some 4, Some 3] \<le> 4"
  using beam_search_bounded[of 4 env_demo 0 tk_hiyo "7/10" "encode tk_hiyo ''x'' 4"]
  by (simp add: beam_search_env_demo)

section \<open>Curriculum selection\<close>


lemma draw_index_0 [simp]: "draw_index L ps 0 = 0"
  by (simp add: draw_index_def)

lemma kept_from_Nil [simp]: "kept_from L rnd n [] = []"
  by (simp add: kept_from_def)






text \<open>An example whose tag names an inherited property is never kept by the filter.\<close>

lemma inherited_tag_not_kept:
  "q \<in> set (fst (curriculum_filter clv rnd n ps)) \<Longrightarrow> difficultyValue q \<noteq> NonNumber"
proof (induction ps arbitrary: n)
  case Nil
  then show ?case by simp
next
  case (Cons p ps)
  show ?case
  proof (cases "difficultyValue p = NonNumber")
    case True
    with Cons.prems have "q \<in> set (fst (curriculum_filter clv rnd n ps))"
      by (simp add: Let_def)
    then show ?thesis by (rule Cons.IH)
  next
    case False
    with Cons.prems Cons.IH show ?thesis
      by (auto simp: Let_def case_prod_beta split: if_splits)
  qed
qed









section \<open>trainModel: what is persisted\<close>

text \<open>
  C6, as the claim states it, fails: when the history of \<open>model.fit\<close> reports \<open>NaN\<close>
  for the loss, \<open>trainModel\<close> records it, returns \<open>true\<close> and stores the tokenizer
  tables in the data manager, which held none before.
\<close>

theorem nan_loss_is_persisted:
  "trainModel fit_nan rnd_demo ''t'' [ex ''hi'' None] (st_demo 0 0)
     = Inr (True,
            (st_demo 0 0)
              \<lparr>dataManager :=
                 Some \<lparr>dm_initialized = True, md_tokenizer = Some tk_hiyo, md_weights = None\<rparr>,
               trainingMetrics :=
                 \<lparr>totalTrainingSessions = 1, totalExamples = 1, lastTrainingTime = Some ''t'',
                  accuracy = NaN, loss = NaN, progressLevel = ''beginner''\<rparr>\<rparr>)
   \<and> dataManager (st_demo 0 0)
       = Some \<lparr>dm_initialized = True, md_tokenizer = None, md_weights = None\<rparr>"
  by code_simp

lemma advance_progress_sel [simp]:
  "loss (advance_progress tm) = loss tm" "accuracy (advance_progress tm) = accuracy tm"
  "totalExamples (advance_progress tm) = totalExamples tm"
  by (simp_all add: advance_progress_def Let_def)

text \<open>
  C6, amended.  \<open>trainModel\<close> has no divergence check.  On an initialized instance
  with a model, a tokenizer and a data manager: when \<open>model.fit\<close> returns a history
  with accuracy and loss arrays, whatever their values, \<open>trainModel\<close> records the
  last accuracy and loss, returns \<open>true\<close> and stores the tokenizer tables if the
  data manager is initialized (an uninitialized data manager stores nothing); when the
  history lacks one of the arrays or \<open>model.fit\<close> throws it returns \<open>false\<close>, and
  when the tensor construction throws the exception leaves \<open>trainModel\<close>; in these
  cases the data manager is unchanged.  The stored weights are never written.
\<close>

theorem trainModel_persistence:
  assumes "initialized st" "model st = Some m0" "tokenizer st = Some tk"
    and "dataManager st = Some dm"
  shows "case outcome of
           FitHistory m (Some accs) (Some losses) \<Rightarrow>
             (\<exists>st'. trainModel (\<lambda>m e d t vs. outcome) rnd now conversationData st = Inr (True, st')
                   \<and> dataManager st'
                       = Some (if dm_initialized dm then dm\<lparr>md_tokenizer := Some tk\<rparr> else dm)
                   \<and> accuracy (trainingMetrics st') = last_elem accs
                   \<and> loss (trainingMetrics st') = last_elem losses)
         | FitHistory m _ _ \<Rightarrow>
             (\<exists>st'. trainModel (\<lambda>m e d t vs. outcome) rnd now conversationData st = Inr (False, st')
                   \<and> dataManager st' = Some dm)
         | FitThrows m \<Rightarrow>
             (\<exists>st'. trainModel (\<lambda>m e d t vs. outcome) rnd now conversationData st = Inr (False, st')
                   \<and> dataManager st' = Some dm
                   \<and> trainingMetrics st' = trainingMetrics st)
         | TensorThrows \<Rightarrow>
             trainModel (\<lambda>m e d t vs. outcome) rnd now conversationData st = Inl UncaughtException"
  using assms
  by (auto simp: trainModel_def saveModel_def saveTokenizerData_def Let_def
           split: fit_outcome.splits option.splits)

text \<open>An instance: a run that ends with accuracy 0.9 and loss 0.1.\<close>

theorem trainModel_persistence_witness:
  "initialized (st_demo 0 0) \<and> model (st_demo 0 0) = Some 0
   \<and> tokenizer (st_demo 0 0) = Some tk_hiyo
   \<and> dataManager (st_demo 0 0)
       = Some \<lparr>dm_initialized = True, md_tokenizer = None, md_weights = None\<rparr>
   \<and> (\<exists>st'. trainModel (\<lambda>m e d t vs. FitHistory 1 (Some [Num (9/10)]) (Some [Num (1/10)]))
                rnd_demo ''t'' [ex ''hi'' None] (st_demo 0 0) = Inr (True, st')
             \<and> dataManager st'
                 = Some \<lparr>dm_initialized = True, md_tokenizer = Some tk_hiyo, md_weights = None\<rparr>
             \<and> accuracy (trainingMetrics st') = Num (9/10)
             \<and> loss (trainingMetrics st') = Num (1/10))"
  using trainModel_persistence[of "st_demo 0 0" 0 tk_hiyo
      "\<lparr>dm_initialized = True, md_tokenizer = None, md_weights = None\<rparr>"
      "FitHistory 1 (Some [Num (9/10)]) (Some [Num (1/10)])" rnd_demo "''t''" "[ex ''hi'' None]"]
  by (simp add: st_demo_def last_elem_def)

section \<open>Export and import\<close>















end
